theory Spec2Isabelle
  imports Main "HOL-Library.Word" "HOL-Library.Char_ord"
begin

unbundle bit_operations_syntax

section \<open>Bytes, text and errors\<close>

text \<open>
  Go's \<^verbatim>\<open>[]byte\<close> holding binary data is a list of 8-bit words; Go's \<^verbatim>\<open>string\<close> and
  \<^verbatim>\<open>[]byte\<close> holding text are lists of \<^typ>\<open>char\<close> (a \<^typ>\<open>char\<close> is one byte).
  Every \<^verbatim>\<open>error\<close> value the modelled code can return is a constructor of one datatype.
\<close>

type_synonym byte = "8 word"

datatype error =
    ErrLength \<comment> \<open>\<^verbatim>\<open>hex.ErrLength\<close>: odd length hex string\<close>
  | InvalidByteError char \<comment> \<open>\<^verbatim>\<open>hex.InvalidByteError\<close>: the offending byte\<close>
  | SyntaxError string \<comment> \<open>\<^verbatim>\<open>*json.SyntaxError\<close>: its message\<close>
  | UnmarshalTypeError string string
      \<comment> \<open>\<^verbatim>\<open>*json.UnmarshalTypeError\<close>: the description of the JSON value, the Go type\<close>
  | errInvalidRequestType string
      \<comment> \<open>\<^verbatim>\<open>errInvalidRequestType.WithAttributes("type", t)\<close>: the attribute \<^verbatim>\<open>t\<close>\<close>
  | MarshalerError error \<comment> \<open>\<^verbatim>\<open>*json.MarshalerError\<close>: the error of a \<^verbatim>\<open>MarshalJSON\<close> method\<close>
  | ExternalError string \<comment> \<open>an error of a package outside the sources\<close>

definition dquote :: char where
  "dquote = CHR 0x22"

section \<open>The Go library functions the Hex codec calls\<close>

subsection \<open>\<^verbatim>\<open>encoding/hex\<close>\<close>

definition hextable :: string where
  "hextable = ''0123456789abcdef''"

text \<open>
  \<^verbatim>\<open>hex.EncodeToString\<close>: for each byte \<^verbatim>\<open>v\<close> the two characters
  \<^verbatim>\<open>hextable[v>>4]\<close> and \<^verbatim>\<open>hextable[v&0x0f]\<close>.
\<close>

fun hex_EncodeToString :: "byte list \<Rightarrow> string" where
  "hex_EncodeToString [] = []"
| "hex_EncodeToString (v # src) =
     hextable ! unat (drop_bit 4 v) # hextable ! unat (v AND 0x0f) # hex_EncodeToString src"

text \<open>
  \<^verbatim>\<open>fromHexChar\<close>: the value of a hexadecimal digit of either case, \<open>None\<close> for any
  other byte (the \<^verbatim>\<open>false\<close> of Go's second result).
\<close>

definition fromHexChar :: "char \<Rightarrow> byte option" where
  "fromHexChar c =
     (if CHR ''0'' \<le> c \<and> c \<le> CHR ''9'' then Some (of_char c - of_char CHR ''0'')
      else if CHR ''a'' \<le> c \<and> c \<le> CHR ''f'' then Some (of_char c - of_char CHR ''a'' + 10)
      else if CHR ''A'' \<le> c \<and> c \<le> CHR ''F'' then Some (of_char c - of_char CHR ''A'' + 10)
      else None)"

text \<open>
  \<^verbatim>\<open>hex.Decode\<close>: the loop takes the input two characters at a time and stops at the
  first character that is no hexadecimal digit; a single character left over is reported as
  an invalid byte if it is one, as \<^verbatim>\<open>ErrLength\<close> otherwise. The bytes decoded before
  the error are part of the result: \<^verbatim>\<open>hex.DecodeString\<close> returns \<^verbatim>\<open>src[:n], err\<close>.
\<close>

fun hex_Decode :: "string \<Rightarrow> byte list \<times> error option" where
  "hex_Decode [] = ([], None)"
| "hex_Decode [c] =
     (case fromHexChar c of
        None \<Rightarrow> ([], Some (InvalidByteError c))
      | Some _ \<Rightarrow> ([], Some ErrLength))"
| "hex_Decode (p # q # src) =
     (case fromHexChar p of
        None \<Rightarrow> ([], Some (InvalidByteError p))
      | Some a \<Rightarrow>
          (case fromHexChar q of
             None \<Rightarrow> ([], Some (InvalidByteError q))
           | Some b \<Rightarrow>
               (case hex_Decode src of (dst, err) \<Rightarrow> ((push_bit 4 a OR b) # dst, err))))"

definition hex_DecodeString :: "string \<Rightarrow> byte list \<times> error option" where
  "hex_DecodeString s = hex_Decode s"

subsection \<open>\<^verbatim>\<open>strings\<close>\<close>

definition strings_TrimPrefix :: "string \<Rightarrow> string \<Rightarrow> string" where
  "strings_TrimPrefix s prefix =
     (if take (length prefix) s = prefix then drop (length prefix) s else s)"

definition strings_TrimSuffix :: "string \<Rightarrow> string \<Rightarrow> string" where
  "strings_TrimSuffix s suffix =
     (if length suffix \<le> length s \<and> drop (length s - length suffix) s = suffix
      then take (length s - length suffix) s else s)"

text \<open>The lowercase form of a text, letter by letter (ASCII letters only).\<close>

definition ascii_lower :: "char \<Rightarrow> char" where
  "ascii_lower c = (if CHR ''A'' \<le> c \<and> c \<le> CHR ''Z'' then char_of (of_char c + (32 :: nat)) else c)"

definition lowercase :: "string \<Rightarrow> string" where
  "lowercase s = map ascii_lower s"

subsection \<open>\<^verbatim>\<open>encoding/json\<close>: the text of a document\<close>

text \<open>
  A JSON document is kept as the tree the scanner of \<^verbatim>\<open>encoding/json\<close> sees, with
  the text of every number and string literal as written (a string's text is what stands
  between its quotes, escapes not yet interpreted; object members keep their order). The
  functions below follow the scanner's states: they accept exactly the literals it accepts.
  White space between tokens is not kept.
\<close>

datatype json =
    JNull
  | JBool bool
  | JNumber string
  | JString string
  | JArray "json list"
  | JObject "(string \<times> json) list"

definition isSpace :: "char \<Rightarrow> bool" where
  "isSpace c = (c = CHR '' '' \<or> c = CHR 0x09 \<or> c = CHR 0x0D \<or> c = CHR 0x0A)"

definition skipSpace :: "string \<Rightarrow> string" where
  "skipSpace s = dropWhile isSpace s"

definition isDigit :: "char \<Rightarrow> bool" where
  "isDigit c = (CHR ''0'' \<le> c \<and> c \<le> CHR ''9'')"

definition isHex :: "char \<Rightarrow> bool" where
  "isHex c = (CHR ''0'' \<le> c \<and> c \<le> CHR ''9'' \<or> CHR ''a'' \<le> c \<and> c \<le> CHR ''f''
              \<or> CHR ''A'' \<le> c \<and> c \<le> CHR ''F'')"

definition backslash :: char where
  "backslash = CHR 0x5C"

fun scanString :: "string \<Rightarrow> (string \<times> string) option" where
  "scanString [] = None"
| "scanString (c # cs) =
     (if c = dquote then Some ([], cs)
      else if c = backslash then
        (case cs of
           [] \<Rightarrow> None
         | e # es \<Rightarrow>
             if e \<in> set [CHR ''b'', CHR ''f'', CHR ''n'', CHR ''r'', CHR ''t'', backslash, CHR ''/'', dquote]
             then (case scanString es of None \<Rightarrow> None | Some (body, rest) \<Rightarrow> Some (c # e # body, rest))
             else if e = CHR ''u'' \<and> length es \<ge> 4 \<and> list_all isHex (take 4 es)
             then (case scanString (drop 4 es) of None \<Rightarrow> None
                   | Some (body, rest) \<Rightarrow> Some (c # e # take 4 es @ body, rest))
             else None)
      else if c < CHR 0x20 then None
      else (case scanString cs of None \<Rightarrow> None | Some (body, rest) \<Rightarrow> Some (c # body, rest)))"

definition scanExp :: "string \<Rightarrow> string \<Rightarrow> (string \<times> string) option" where
  "scanExp lit s =
     (case s of
        [] \<Rightarrow> Some (lit, s)
      | c # cs \<Rightarrow>
          if c = CHR ''e'' \<or> c = CHR ''E'' then
            (let (sign, s1) = (case cs of
                                 [] \<Rightarrow> ([], cs)
                               | d # ds \<Rightarrow> if d = CHR ''+'' \<or> d = CHR ''-'' then ([d], ds) else ([], cs))
             in if takeWhile isDigit s1 = [] then None
                else Some (lit @ c # sign @ takeWhile isDigit s1, dropWhile isDigit s1))
          else Some (lit, s))"

definition scanFrac :: "string \<Rightarrow> string \<Rightarrow> (string \<times> string) option" where
  "scanFrac lit s =
     (case s of
        [] \<Rightarrow> scanExp lit s
      | c # cs \<Rightarrow>
          if c = CHR ''.'' then
            (if takeWhile isDigit cs = [] then None
             else scanExp (lit @ c # takeWhile isDigit cs) (dropWhile isDigit cs))
          else scanExp lit s)"

definition scanNumber :: "string \<Rightarrow> (string \<times> string) option" where
  "scanNumber s =
     (let (sign, s1) = (case s of
                          [] \<Rightarrow> ([], s)
                        | c # cs \<Rightarrow> if c = CHR ''-'' then ([c], cs) else ([], s))
      in case s1 of
           [] \<Rightarrow> None
         | c # cs \<Rightarrow>
             if c = CHR ''0'' then scanFrac (sign @ [c]) cs
             else if CHR ''1'' \<le> c \<and> c \<le> CHR ''9''
             then scanFrac (sign @ c # takeWhile isDigit cs) (dropWhile isDigit cs)
             else None)"

definition scanLiteral :: "string \<Rightarrow> json \<Rightarrow> string \<Rightarrow> (json \<times> string) option" where
  "scanLiteral word v s =
     (if take (length word) s = word then Some (v, drop (length word) s) else None)"

lemma scanString_shorter: "scanString s = Some (body, rest) \<Longrightarrow> length rest < length s"
  by (induction s arbitrary: body rest rule: scanString.induct)
     (auto split: if_splits list.splits option.splits, fastforce+)

lemma skipSpace_le: "length (skipSpace s) \<le> length s"
  by (simp add: skipSpace_def length_dropWhile_le)

lemma skipSpace_Cons_less: "skipSpace s = c # cs \<Longrightarrow> length cs < length s"
  using skipSpace_le [of s] by simp

lemma skipSpace_less: "length s < n \<Longrightarrow> length (skipSpace s) < n"
  using skipSpace_le [of s] by simp

function parseValue :: "string \<Rightarrow> (json \<times> string) option"
  and parseElements :: "string \<Rightarrow> (json list \<times> string) option"
  and parseMembers :: "string \<Rightarrow> ((string \<times> json) list \<times> string) option"
where
  "parseValue s =
     (case s of
        [] \<Rightarrow> None
      | c # cs \<Rightarrow>
          if c = CHR ''{'' then
            (case skipSpace cs of
               [] \<Rightarrow> None
             | d # ds \<Rightarrow>
                 if d = CHR ''}'' then Some (JObject [], ds)
                 else (case parseMembers (d # ds) of
                         None \<Rightarrow> None
                       | Some (ms, rest) \<Rightarrow> Some (JObject ms, rest)))
          else if c = CHR ''['' then
            (case skipSpace cs of
               [] \<Rightarrow> None
             | d # ds \<Rightarrow>
                 if d = CHR '']'' then Some (JArray [], ds)
                 else (case parseElements (d # ds) of
                         None \<Rightarrow> None
                       | Some (vs, rest) \<Rightarrow> Some (JArray vs, rest)))
          else if c = dquote then
            (case scanString cs of None \<Rightarrow> None | Some (body, rest) \<Rightarrow> Some (JString body, rest))
          else if c = CHR ''t'' then scanLiteral ''true'' (JBool True) s
          else if c = CHR ''f'' then scanLiteral ''false'' (JBool False) s
          else if c = CHR ''n'' then scanLiteral ''null'' JNull s
          else (case scanNumber s of None \<Rightarrow> None | Some (lit, rest) \<Rightarrow> Some (JNumber lit, rest)))"
| "parseElements s =
     (case parseValue s of
        None \<Rightarrow> None
      | Some (v, rest) \<Rightarrow>
          if length rest < length s then
            (case skipSpace rest of
               [] \<Rightarrow> None
             | c # cs \<Rightarrow>
                 if c = CHR '','' then
                   (case parseElements (skipSpace cs) of
                      None \<Rightarrow> None
                    | Some (vs, rest') \<Rightarrow> Some (v # vs, rest'))
                 else if c = CHR '']'' then Some ([v], cs)
                 else None)
          else None)"
| "parseMembers s =
     (case s of
        [] \<Rightarrow> None
      | c # cs \<Rightarrow>
          if c \<noteq> dquote then None
          else
            (case scanString cs of
               None \<Rightarrow> None
             | Some (key, r) \<Rightarrow>
                 (case skipSpace r of
                    [] \<Rightarrow> None
                  | c1 # r1 \<Rightarrow>
                      if c1 \<noteq> CHR '':'' then None
                      else
                        (case parseValue (skipSpace r1) of
                           None \<Rightarrow> None
                         | Some (v, r2) \<Rightarrow>
                             if length r2 < length s then
                               (case skipSpace r2 of
                                  [] \<Rightarrow> None
                                | c2 # r3 \<Rightarrow>
                                    if c2 = CHR '','' then
                                      (case parseMembers (skipSpace r3) of
                                         None \<Rightarrow> None
                                       | Some (ms, rest) \<Rightarrow> Some ((key, v) # ms, rest))
                                    else if c2 = CHR ''}'' then Some ([(key, v)], r3)
                                    else None)
                             else None))))"
  by pat_completeness auto

termination
  by (relation "inv_image (less_than <*lex*> less_than)
        (\<lambda>x. case x of Inl s \<Rightarrow> (length s, 0 :: nat)
                       | Inr (Inl s) \<Rightarrow> (length s, 1)
                       | Inr (Inr s) \<Rightarrow> (length s, 1))")
     (auto dest!: skipSpace_Cons_less scanString_shorter intro!: skipSpace_less)

definition json_parse :: "string \<Rightarrow> json option" where
  "json_parse b =
     (case parseValue (skipSpace b) of
        None \<Rightarrow> None
      | Some (v, rest) \<Rightarrow> if skipSpace rest = [] then Some v else None)"

subsection \<open>strconv\<close>

definition digitsValue :: "string \<Rightarrow> int" where
  "digitsValue s = foldl (\<lambda>n c. 10 * n + (of_char c - of_char CHR ''0'')) 0 s"

definition strconv_ParseUint :: "string \<Rightarrow> int option" where
  "strconv_ParseUint s =
     (if s = [] \<or> \<not> list_all isDigit s then None
      else if digitsValue s < 18446744073709551616 then Some (digitsValue s) else None)"

definition strconv_ParseInt :: "string \<Rightarrow> int option" where
  "strconv_ParseInt s =
     (case s of
        [] \<Rightarrow> None
      | c # cs \<Rightarrow>
          if c = CHR ''+'' then
            (case strconv_ParseUint cs of
               None \<Rightarrow> None
             | Some un \<Rightarrow> if un < 9223372036854775808 then Some un else None)
          else if c = CHR ''-'' then
            (case strconv_ParseUint cs of
               None \<Rightarrow> None
             | Some un \<Rightarrow> if un \<le> 9223372036854775808 then Some (- un) else None)
          else
            (case strconv_ParseUint s of
               None \<Rightarrow> None
             | Some un \<Rightarrow> if un < 9223372036854775808 then Some un else None))"

function strconv_FormatUint :: "int \<Rightarrow> string" where
  "strconv_FormatUint n =
     (if n < 10 then [char_of (of_char CHR ''0'' + n)]
      else strconv_FormatUint (n div 10) @ [char_of (of_char CHR ''0'' + n mod 10)])"
  by pat_completeness auto
termination
  by (relation "measure nat") auto

definition strconv_FormatInt :: "int \<Rightarrow> string" where
  "strconv_FormatInt i =
     (if i < 0 then CHR ''-'' # strconv_FormatUint (- i) else strconv_FormatUint i)"

subsection \<open>strings of JSON\<close>

definition hexDigitValue :: "char \<Rightarrow> int" where
  "hexDigitValue c =
     (if CHR ''0'' \<le> c \<and> c \<le> CHR ''9'' then of_char c - of_char CHR ''0''
      else if CHR ''a'' \<le> c \<and> c \<le> CHR ''f'' then of_char c - of_char CHR ''a'' + 10
      else of_char c - of_char CHR ''A'' + 10)"

definition getu4 :: "string \<Rightarrow> int option" where
  "getu4 s =
     (case s of
        b # u # h1 # h2 # h3 # h4 # _ \<Rightarrow>
          if b = backslash \<and> u = CHR ''u'' \<and> isHex h1 \<and> isHex h2 \<and> isHex h3 \<and> isHex h4
          then Some (((hexDigitValue h1 * 16 + hexDigitValue h2) * 16 + hexDigitValue h3) * 16
                     + hexDigitValue h4)
          else None
      | _ \<Rightarrow> None)"

definition utf8_EncodeRune :: "int \<Rightarrow> string" where
  "utf8_EncodeRune r =
     (if r < 0x80 then [char_of r]
      else if r < 0x800 then [char_of (0xC0 + r div 64), char_of (0x80 + r mod 64)]
      else if 0x10FFFF < r \<or> (0xD800 \<le> r \<and> r < 0xE000) then [CHR 0xEF, CHR 0xBF, CHR 0xBD]
      else if r < 0x10000 then
        [char_of (0xE0 + r div 4096), char_of (0x80 + (r div 64) mod 64), char_of (0x80 + r mod 64)]
      else
        [char_of (0xF0 + r div 262144), char_of (0x80 + (r div 4096) mod 64),
         char_of (0x80 + (r div 64) mod 64), char_of (0x80 + r mod 64)])"

text \<open>\<^verbatim>\<open>utf8.DecodeRune\<close>: the rune at the head of the bytes and its width; an
  encoding that is not well formed gives U+FFFD and width 1. The table \<^verbatim>\<open>first\<close> and the
  \<^verbatim>\<open>acceptRanges\<close> of the library are written out as the comparisons they encode.\<close>

definition utf8_DecodeRune :: "string \<Rightarrow> int \<times> nat" where
  "utf8_DecodeRune p =
     (case p of
        [] \<Rightarrow> (0xFFFD, 0)
      | p0 # ps \<Rightarrow>
          if p0 < CHR 0x80 then (of_char p0, 1)
          else if p0 < CHR 0xC2 \<or> CHR 0xF4 < p0 then (0xFFFD, 1)
          else
            (let sz = (if p0 < CHR 0xE0 then 2 else if p0 < CHR 0xF0 then 3 else (4::nat));
                 lo = (if p0 = CHR 0xE0 then CHR 0xA0 else if p0 = CHR 0xF0 then CHR 0x90
                       else CHR 0x80);
                 hi = (if p0 = CHR 0xED then CHR 0x9F else if p0 = CHR 0xF4 then CHR 0x8F
                       else CHR 0xBF)
             in if length p < sz then (0xFFFD, 1)
                else
                  (case ps of
                     [] \<Rightarrow> (0xFFFD, 1)
                   | b1 # ps1 \<Rightarrow>
                       if b1 < lo \<or> hi < b1 then (0xFFFD, 1)
                       else if sz \<le> 2 then (of_char p0 mod 32 * 64 + of_char b1 mod 64, 2)
                       else
                         (case ps1 of
                            [] \<Rightarrow> (0xFFFD, 1)
                          | b2 # ps2 \<Rightarrow>
                              if b2 < CHR 0x80 \<or> CHR 0xBF < b2 then (0xFFFD, 1)
                              else if sz \<le> 3 then
                                (of_char p0 mod 16 * 4096 + of_char b1 mod 64 * 64
                                 + of_char b2 mod 64, 3)
                              else
                                (case ps2 of
                                   [] \<Rightarrow> (0xFFFD, 1)
                                 | b3 # _ \<Rightarrow>
                                     if b3 < CHR 0x80 \<or> CHR 0xBF < b3 then (0xFFFD, 1)
                                     else
                                       (of_char p0 mod 8 * 262144 + of_char b1 mod 64 * 4096
                                        + of_char b2 mod 64 * 64 + of_char b3 mod 64, 4))))))"

text \<open>\<^verbatim>\<open>unquoteBytes\<close> on the text between the quotes of a string literal the scanner
  has accepted: escapes are replaced, ASCII bytes are copied, and every other rune is decoded
  and encoded again, which turns bytes that are not well-formed UTF-8 into U+FFFD. The rune
  at a non-empty input has a width of at least 1, so dropping \<open>width\<close> bytes of \<open>c # cs\<close> is
  written as dropping \<open>width - 1\<close> bytes of \<open>cs\<close>.\<close>

function unquote :: "string \<Rightarrow> string" where
  "unquote [] = []"
| "unquote (c # cs) =
     (if c = backslash then
        (case cs of
           [] \<Rightarrow> []
         | e # es \<Rightarrow>
             if e = CHR ''u'' then
               (case getu4 (c # cs) of
                  None \<Rightarrow> []
                | Some rr \<Rightarrow>
                    if 0xD800 \<le> rr \<and> rr < 0xE000 then
                      (case getu4 (drop 4 es) of
                         None \<Rightarrow> utf8_EncodeRune 0xFFFD @ unquote (drop 4 es)
                       | Some rr1 \<Rightarrow>
                           if rr < 0xDC00 \<and> 0xDC00 \<le> rr1 \<and> rr1 < 0xE000
                           then utf8_EncodeRune ((rr - 0xD800) * 1024 + (rr1 - 0xDC00) + 0x10000)
                                @ unquote (drop 10 es)
                           else utf8_EncodeRune 0xFFFD @ unquote (drop 4 es))
                    else utf8_EncodeRune rr @ unquote (drop 4 es))
             else if e = CHR ''b'' then CHR 0x08 # unquote es
             else if e = CHR ''f'' then CHR 0x0C # unquote es
             else if e = CHR ''n'' then CHR 0x0A # unquote es
             else if e = CHR ''r'' then CHR 0x0D # unquote es
             else if e = CHR ''t'' then CHR 0x09 # unquote es
             else if e = dquote \<or> e = backslash \<or> e = CHR ''/'' \<or> e = CHR 0x27 then e # unquote es
             else [])
      else if c < CHR 0x80 then c # unquote cs
      else
        (case utf8_DecodeRune (c # cs) of
           (rr, width) \<Rightarrow> utf8_EncodeRune rr @ unquote (drop (width - 1) cs)))"
  by pat_completeness auto
termination
  by (relation "measure length") auto

definition htmlSafe :: "char \<Rightarrow> bool" where
  "htmlSafe c = (CHR 0x20 \<le> c \<and> c \<noteq> dquote \<and> c \<noteq> CHR ''&'' \<and> c \<noteq> CHR ''<''
                 \<and> c \<noteq> CHR ''>'' \<and> c \<noteq> backslash)"

definition encodeChar :: "char \<Rightarrow> string" where
  "encodeChar c =
     (if CHR 0x80 \<le> c \<or> htmlSafe c then [c]
      else if c = backslash \<or> c = dquote then [backslash, c]
      else if c = CHR 0x0A then [backslash, CHR ''n'']
      else if c = CHR 0x0D then [backslash, CHR ''r'']
      else if c = CHR 0x09 then [backslash, CHR ''t'']
      else [backslash, CHR ''u'', CHR ''0'', CHR ''0'',
            hextable ! nat (of_char c div 16), hextable ! nat (of_char c mod 16)])"

definition encodeString :: "string \<Rightarrow> string" where
  "encodeString s = concat (map encodeChar s)"

fun json_raw :: "json \<Rightarrow> string"
  and raw_elements :: "json list \<Rightarrow> string"
  and raw_members :: "(string \<times> json) list \<Rightarrow> string"
where
  "json_raw JNull = ''null''"
| "json_raw (JBool b) = (if b then ''true'' else ''false'')"
| "json_raw (JNumber lit) = lit"
| "json_raw (JString body) = [dquote] @ body @ [dquote]"
| "json_raw (JArray vs) = ''['' @ raw_elements vs @ '']''"
| "json_raw (JObject ms) = ''{'' @ raw_members ms @ ''}''"
| "raw_elements [] = []"
| "raw_elements [v] = json_raw v"
| "raw_elements (v # w # vs) = json_raw v @ '','' @ raw_elements (w # vs)"
| "raw_members [] = []"
| "raw_members [(k, v)] = [dquote] @ k @ [dquote] @ '':'' @ json_raw v"
| "raw_members ((k, v) # m # ms) =
     [dquote] @ k @ [dquote] @ '':'' @ json_raw v @ '','' @ raw_members (m # ms)"

subsection \<open>The decoder\<close>

definition saveError :: "error option \<Rightarrow> error option \<Rightarrow> error option" where
  "saveError savedError err = (case savedError of None \<Rightarrow> err | Some e \<Rightarrow> Some e)"

definition valueKind :: "json \<Rightarrow> string" where
  "valueKind j =
     (case j of
        JNull \<Rightarrow> ''null''
      | JBool _ \<Rightarrow> ''bool''
      | JNumber _ \<Rightarrow> ''number''
      | JString _ \<Rightarrow> ''string''
      | JArray _ \<Rightarrow> ''array''
      | JObject _ \<Rightarrow> ''object'')"

definition decode_uint :: "string \<Rightarrow> json \<Rightarrow> 'a::len word \<Rightarrow> 'a word \<times> error option" where
  "decode_uint ty j v =
     (case j of
        JNull \<Rightarrow> (v, None)
      | JNumber s \<Rightarrow>
          (case strconv_ParseUint s of
             None \<Rightarrow> (v, Some (UnmarshalTypeError (''number '' @ s) ty))
           | Some n \<Rightarrow>
               if n < 2 ^ LENGTH('a) then (word_of_int n, None)
               else (v, Some (UnmarshalTypeError (''number '' @ s) ty)))
      | _ \<Rightarrow> (v, Some (UnmarshalTypeError (valueKind j) ty)))"

definition decode_uint_ptr ::
  "string \<Rightarrow> json \<Rightarrow> 'a::len word option \<Rightarrow> 'a word option \<times> error option" where
  "decode_uint_ptr ty j p =
     (case j of
        JNull \<Rightarrow> (None, None)
      | _ \<Rightarrow>
          (case decode_uint ty j (case p of None \<Rightarrow> 0 | Some v \<Rightarrow> v) of
             (v', err) \<Rightarrow> (Some v', err)))"

definition decode_int :: "string \<Rightarrow> json \<Rightarrow> 'a::len word \<Rightarrow> 'a word \<times> error option" where
  "decode_int ty j v =
     (case j of
        JNull \<Rightarrow> (v, None)
      | JNumber s \<Rightarrow>
          (case strconv_ParseInt s of
             None \<Rightarrow> (v, Some (UnmarshalTypeError (''number '' @ s) ty))
           | Some n \<Rightarrow>
               if - (2 ^ (LENGTH('a) - 1)) \<le> n \<and> n < 2 ^ (LENGTH('a) - 1) then (word_of_int n, None)
               else (v, Some (UnmarshalTypeError (''number '' @ s) ty)))
      | _ \<Rightarrow> (v, Some (UnmarshalTypeError (valueKind j) ty)))"

definition decode_string :: "string \<Rightarrow> json \<Rightarrow> string \<Rightarrow> string \<times> error option" where
  "decode_string ty j v =
     (case j of
        JNull \<Rightarrow> (v, None)
      | JString body \<Rightarrow> (unquote body, None)
      | _ \<Rightarrow> (v, Some (UnmarshalTypeError (valueKind j) ty)))"

fun decode_string_elements :: "json list \<Rightarrow> string list \<Rightarrow> string list \<times> error option" where
  "decode_string_elements [] old = ([], None)"
| "decode_string_elements (j # js) old =
     (case decode_string ''string'' j (case old of [] \<Rightarrow> [] | x # _ \<Rightarrow> x) of
        (s, err) \<Rightarrow>
          (case decode_string_elements js (tl old) of
             (ss, err') \<Rightarrow> (s # ss, saveError err err')))"

definition decode_string_slice ::
  "string \<Rightarrow> json \<Rightarrow> string list option \<Rightarrow> string list option \<times> error option" where
  "decode_string_slice ty j p =
     (case j of
        JNull \<Rightarrow> (None, None)
      | JArray js \<Rightarrow>
          (case decode_string_elements js (case p of None \<Rightarrow> [] | Some xs \<Rightarrow> xs) of
             (ss, err) \<Rightarrow> (Some ss, err))
      | _ \<Rightarrow> (p, Some (UnmarshalTypeError (valueKind j) ty)))"

text \<open>The case folding of \<^verbatim>\<open>encoding/json\<close> (\<^verbatim>\<open>fold.go\<close>). \<^verbatim>\<open>caseMask\<close> is \<^verbatim>\<open>b & ^0x20\<close>,
  the byte with the bit of value 32 cleared. \<^verbatim>\<open>foldFunc\<close> picks, from the declared name of a
  field, the function that compares this name with the keys of a document: a name that holds
  \<^verbatim>\<open>s\<close> or \<^verbatim>\<open>k\<close> is compared by \<^verbatim>\<open>equalFoldRight\<close>, which also accepts U+017F (the bytes
  C5 BF) for \<^verbatim>\<open>s\<close> and U+212A (the bytes E2 84 AA) for \<^verbatim>\<open>k\<close>: these are the only encodings that
  \<^verbatim>\<open>utf8.DecodeRune\<close> reads as these two runes. For a name with a byte outside ASCII the
  library uses \<^verbatim>\<open>bytes.EqualFold\<close>; every name declared in this package is ASCII, and that
  case is written here as equality of the bytes.\<close>

definition caseMask :: "char \<Rightarrow> char" where
  "caseMask c = (case c of Char b0 b1 b2 b3 b4 b5 b6 b7 \<Rightarrow> Char b0 b1 b2 b3 b4 False b6 b7)"

definition simpleLetterEqualFold :: "string \<Rightarrow> string \<Rightarrow> bool" where
  "simpleLetterEqualFold s t =
     (length s = length t \<and> list_all2 (\<lambda>b tb. caseMask b = caseMask tb) s t)"

definition asciiEqualFold :: "string \<Rightarrow> string \<Rightarrow> bool" where
  "asciiEqualFold s t =
     (length s = length t
      \<and> list_all2 (\<lambda>sb tb. sb = tb
            \<or> (((CHR ''a'' \<le> sb \<and> sb \<le> CHR ''z'') \<or> (CHR ''A'' \<le> sb \<and> sb \<le> CHR ''Z''))
               \<and> caseMask sb = caseMask tb)) s t)"

fun equalFoldRight :: "string \<Rightarrow> string \<Rightarrow> bool" where
  "equalFoldRight [] t = (t = [])"
| "equalFoldRight (sb # s) [] = False"
| "equalFoldRight (sb # s) (tb # t) =
     (if tb < CHR 0x80 then
        (sb = tb \<or> (CHR ''A'' \<le> caseMask sb \<and> caseMask sb \<le> CHR ''Z''
                     \<and> caseMask sb = caseMask tb))
        \<and> equalFoldRight s t
      else if sb = CHR ''s'' \<or> sb = CHR ''S'' then
        (case tb # t of
           t0 # t1 # t' \<Rightarrow> t0 = CHR 0xC5 \<and> t1 = CHR 0xBF \<and> equalFoldRight s t'
         | _ \<Rightarrow> False)
      else if sb = CHR ''k'' \<or> sb = CHR ''K'' then
        (case tb # t of
           t0 # t1 # t2 # t' \<Rightarrow>
             t0 = CHR 0xE2 \<and> t1 = CHR 0x84 \<and> t2 = CHR 0xAA \<and> equalFoldRight s t'
         | _ \<Rightarrow> False)
      else False)"

definition foldFunc :: "string \<Rightarrow> string \<Rightarrow> string \<Rightarrow> bool" where
  "foldFunc s =
     (if list_ex (\<lambda>b. CHR 0x80 \<le> b) s then (\<lambda>s t. s = t)
      else if list_ex (\<lambda>b. caseMask b = CHR ''K'' \<or> caseMask b = CHR ''S'') s then equalFoldRight
      else if list_ex (\<lambda>b. caseMask b < CHR ''A'' \<or> CHR ''Z'' < caseMask b) s then asciiEqualFold
      else simpleLetterEqualFold)"

text \<open>\<^verbatim>\<open>f.equalFold(f.nameBytes, key)\<close>: the folding function of the field \<open>name\<close>, applied to
  the name and a key.\<close>

definition equalFold :: "string \<Rightarrow> string \<Rightarrow> bool" where
  "equalFold name key = foldFunc name name key"

definition findField :: "string list \<Rightarrow> string \<Rightarrow> string option" where
  "findField names key =
     (case find (\<lambda>n. n = key) names of
        Some n \<Rightarrow> Some n
      | None \<Rightarrow> find (\<lambda>n. equalFold n key) names)"

fun decode_members ::
  "(string \<Rightarrow> json \<Rightarrow> 's \<Rightarrow> 's \<times> error option \<times> error option) \<Rightarrow> string list \<Rightarrow>
   (string \<times> json) list \<Rightarrow> 's \<Rightarrow> 's \<times> error option \<times> error option" where
  "decode_members field names [] v = (v, None, None)"
| "decode_members field names ((k, j) # ms) v =
     (case findField names (unquote k) of
        None \<Rightarrow> decode_members field names ms v
      | Some f \<Rightarrow>
          (case field f j v of
             (v', saved, Some err) \<Rightarrow> (v', saved, Some err)
           | (v', saved, None) \<Rightarrow>
               (case decode_members field names ms v' of
                  (v'', saved', err) \<Rightarrow> (v'', saveError saved saved', err))))"

definition decode_struct ::
  "string \<Rightarrow> (string \<Rightarrow> json \<Rightarrow> 's \<Rightarrow> 's \<times> error option \<times> error option) \<Rightarrow> string list \<Rightarrow>
   json \<Rightarrow> 's \<Rightarrow> 's \<times> error option \<times> error option" where
  "decode_struct ty field names j v =
     (case j of
        JNull \<Rightarrow> (v, None, None)
      | JObject ms \<Rightarrow> decode_members field names ms v
      | _ \<Rightarrow> (v, Some (UnmarshalTypeError (valueKind j) ty), None))"

definition unmarshal_result :: "'s \<times> error option \<times> error option \<Rightarrow> 's \<times> error option" where
  "unmarshal_result d =
     (case d of (v, saved, Some err) \<Rightarrow> (v, Some err) | (v, saved, None) \<Rightarrow> (v, saved))"


section \<open>The objects of the package\<close>

subsection \<open>The Hex codec\<close>

type_synonym Hex = "byte list"

text \<open>
  \<^verbatim>\<open>func (h Hex) MarshalJSON() ([]byte, error)\<close>:
  \<^verbatim>\<open>fmt.Sprintf("\"%s\"", hex.EncodeToString(h))\<close> and a nil error.
\<close>

definition Hex_MarshalJSON :: "Hex \<Rightarrow> string \<times> error option" where
  "Hex_MarshalJSON h = ([dquote] @ hex_EncodeToString h @ [dquote], None)"

text \<open>
  \<^verbatim>\<open>func (h *Hex) UnmarshalJSON(b []byte) (err error)\<close>. The receiver is passed
  in and returned: the method assigns \<^verbatim>\<open>*h\<close> whatever \<^verbatim>\<open>hex.DecodeString\<close>
  returns, also when it returns an error.
\<close>

definition Hex_UnmarshalJSON :: "Hex \<Rightarrow> string \<Rightarrow> Hex \<times> error option" where
  "Hex_UnmarshalJSON h b =
     (let s = strings_TrimSuffix (strings_TrimPrefix b [dquote]) [dquote]
      in hex_DecodeString s)"

subsection \<open>Requests\<close>

type_synonym EUI64 = "64 word"

type_synonym ResetRequestParam = byte

type_synonym GetInfoRequestParam = "string list option"

record SetConfRequestParam =
  ADRMode :: "8 word option"
  JoinEUI :: EUI64
  Interval :: "8 word option"
  Region :: "8 word option"
  OpMode :: "32 word option"

record FileDoneRequestParam =
  SID :: "32 word"
  SCtr :: "32 word"

type_synonym FUOTARequestParam = Hex

datatype requestParam =
    Reset ResetRequestParam
  | GetInfo GetInfoRequestParam
  | SetConf SetConfRequestParam
  | FileDone FileDoneRequestParam
  | FUOTA FUOTARequestParam

record Request =
  Type :: string
  Param :: "requestParam option"

definition ResetRequestType :: string where "ResetRequestType = ''RESET''"
definition RejoinRequestType :: string where "RejoinRequestType = ''REJOIN''"
definition MuteRequestType :: string where "MuteRequestType = ''MUTE''"
definition GetInfoRequestType :: string where "GetInfoRequestType = ''GETINFO''"
definition SetConfRequestType :: string where "SetConfRequestType = ''SETCONF''"
definition FileDoneRequestType :: string where "FileDoneRequestType = ''FILEDONE''"
definition FUOTARequestType :: string where "FUOTARequestType = ''FUOTA''"

record baseRequest =
  base_Type :: string
  base_Param :: "json option"

definition baseRequest_field ::
  "string \<Rightarrow> json \<Rightarrow> baseRequest \<Rightarrow> baseRequest \<times> error option \<times> error option" where
  "baseRequest_field f j br =
     (if f = ''type'' then
        (case decode_string ''string'' j (base_Type br) of
           (s, saved) \<Rightarrow> (br\<lparr>base_Type := s\<rparr>, saved, None))
      else (br\<lparr>base_Param := Some j\<rparr>, None, None))"

definition json_Unmarshal_baseRequest :: "string \<Rightarrow> baseRequest \<Rightarrow> baseRequest \<times> error option" where
  "json_Unmarshal_baseRequest b br =
     (case json_parse b of
        None \<Rightarrow> (br, Some (SyntaxError ''invalid JSON''))
      | Some j \<Rightarrow>
          unmarshal_result
            (decode_struct ''objects.baseRequest'' baseRequest_field [''type'', ''param''] j br))"

type_synonym EUI64_UnmarshalJSON = "EUI64 \<Rightarrow> string \<Rightarrow> EUI64 \<times> error option"
type_synonym EUI64_MarshalJSON = "EUI64 \<Rightarrow> string \<times> error option"

definition SetConfRequestParam_field ::
  "EUI64_UnmarshalJSON \<Rightarrow> string \<Rightarrow> json \<Rightarrow> SetConfRequestParam \<Rightarrow>
   SetConfRequestParam \<times> error option \<times> error option" where
  "SetConfRequestParam_field eui f j p =
     (if f = ''adrmode'' then
        (case decode_uint_ptr ''uint8'' j (ADRMode p) of (v, saved) \<Rightarrow> (p\<lparr>ADRMode := v\<rparr>, saved, None))
      else if f = ''joineui'' then
        (case eui (JoinEUI p) (json_raw j) of (v, err) \<Rightarrow> (p\<lparr>JoinEUI := v\<rparr>, None, err))
      else if f = ''interval'' then
        (case decode_uint_ptr ''uint8'' j (Interval p) of (v, saved) \<Rightarrow> (p\<lparr>Interval := v\<rparr>, saved, None))
      else if f = ''region'' then
        (case decode_uint_ptr ''uint8'' j (Region p) of (v, saved) \<Rightarrow> (p\<lparr>Region := v\<rparr>, saved, None))
      else
        (case decode_uint_ptr ''uint32'' j (OpMode p) of (v, saved) \<Rightarrow> (p\<lparr>OpMode := v\<rparr>, saved, None)))"

definition FileDoneRequestParam_field ::
  "string \<Rightarrow> json \<Rightarrow> FileDoneRequestParam \<Rightarrow> FileDoneRequestParam \<times> error option \<times> error option" where
  "FileDoneRequestParam_field f j p =
     (if f = ''sid'' then
        (case decode_int ''int32'' j (SID p) of (v, saved) \<Rightarrow> (p\<lparr>SID := v\<rparr>, saved, None))
      else
        (case decode_int ''int32'' j (SCtr p) of (v, saved) \<Rightarrow> (p\<lparr>SCtr := v\<rparr>, saved, None)))"

definition FUOTARequestParam_MarshalJSON :: "FUOTARequestParam \<Rightarrow> string \<times> error option" where
  "FUOTARequestParam_MarshalJSON f = Hex_MarshalJSON f"

definition FUOTARequestParam_UnmarshalJSON ::
  "FUOTARequestParam \<Rightarrow> string \<Rightarrow> FUOTARequestParam \<times> error option" where
  "FUOTARequestParam_UnmarshalJSON f b =
     (case Hex_UnmarshalJSON [] b of
        (h, Some err) \<Rightarrow> (f, Some err)
      | (h, None) \<Rightarrow> (h, None))"

definition json_Unmarshal_requestParam ::
  "EUI64_UnmarshalJSON \<Rightarrow> json option \<Rightarrow> requestParam \<Rightarrow> requestParam \<times> error option" where
  "json_Unmarshal_requestParam eui data p =
     (case data of
        None \<Rightarrow> (p, Some (SyntaxError ''unexpected end of JSON input''))
      | Some j \<Rightarrow>
          (case p of
             Reset v \<Rightarrow>
               (case decode_uint ''objects.ResetRequestParam'' j v of (v', err) \<Rightarrow> (Reset v', err))
           | GetInfo v \<Rightarrow>
               (case decode_string_slice ''objects.GetInfoRequestParam'' j v of
                  (v', err) \<Rightarrow> (GetInfo v', err))
           | SetConf v \<Rightarrow>
               (case unmarshal_result
                       (decode_struct ''objects.SetConfRequestParam'' (SetConfRequestParam_field eui)
                          [''adrmode'', ''joineui'', ''interval'', ''region'', ''opmode''] j v) of
                  (v', err) \<Rightarrow> (SetConf v', err))
           | FileDone v \<Rightarrow>
               (case unmarshal_result
                       (decode_struct ''objects.FileDoneRequestParam'' FileDoneRequestParam_field
                          [''sid'', ''sctr''] j v) of
                  (v', err) \<Rightarrow> (FileDone v', err))
           | FUOTA v \<Rightarrow>
               (case FUOTARequestParam_UnmarshalJSON v (json_raw j) of
                  (v', err) \<Rightarrow> (FUOTA v', err))))"

definition Request_UnmarshalJSON ::
  "EUI64_UnmarshalJSON \<Rightarrow> Request \<Rightarrow> string \<Rightarrow> Request \<times> error option" where
  "Request_UnmarshalJSON eui r b =
     (case json_Unmarshal_baseRequest b \<lparr>base_Type = [], base_Param = None\<rparr> of
        (br, Some err) \<Rightarrow> (r, Some err)
      | (br, None) \<Rightarrow>
          (let r1 = r\<lparr>Type := base_Type br\<rparr>;
               unmarshal = (\<lambda>p. case json_Unmarshal_requestParam eui (base_Param br) p of
                                   (p', err) \<Rightarrow> (r1\<lparr>Param := Some p'\<rparr>, err))
           in if base_Type br = ResetRequestType then unmarshal (Reset 0)
              else if base_Type br = RejoinRequestType \<or> base_Type br = MuteRequestType
              then (r1, None)
              else if base_Type br = GetInfoRequestType then unmarshal (GetInfo None)
              else if base_Type br = SetConfRequestType
              then unmarshal (SetConf \<lparr>ADRMode = None, JoinEUI = 0, Interval = None,
                                       Region = None, OpMode = None\<rparr>)
              else if base_Type br = FileDoneRequestType
              then unmarshal (FileDone \<lparr>SID = 0, SCtr = 0\<rparr>)
              else if base_Type br = FUOTARequestType then unmarshal (FUOTA [])
              else (r1, Some (errInvalidRequestType (base_Type br)))))"

section \<open>The properties' vocabulary\<close>

text \<open>
  The words of the specification that the theorems below are stated in: hexadecimal digits,
  the lowercase form of a text, the text left after one leading and one trailing quote is
  stripped, and the Hex decoder's kinds of error.
\<close>

definition is_hex_digit :: "char \<Rightarrow> bool" where
  "is_hex_digit c = (c \<in> set ''0123456789abcdefABCDEF'')"

definition strip_quotes :: "string \<Rightarrow> string" where
  "strip_quotes b =
     (let b1 = (case b of [] \<Rightarrow> [] | c # cs \<Rightarrow> if c = dquote then cs else b)
      in if b1 \<noteq> [] \<and> last b1 = dquote then butlast b1 else b1)"

definition is_DecodeError :: "error \<Rightarrow> bool" where
  "is_DecodeError e = (case e of ErrLength \<Rightarrow> True | InvalidByteError c \<Rightarrow> True | _ \<Rightarrow> False)"

definition envelope :: "string \<Rightarrow> baseRequest \<times> error option" where
  "envelope b = json_Unmarshal_baseRequest b \<lparr>base_Type = [], base_Param = None\<rparr>"

definition payloadTypes :: "string list" where
  "payloadTypes =
     [ResetRequestType, GetInfoRequestType, SetConfRequestType, FileDoneRequestType, FUOTARequestType]"

definition noPayloadTypes :: "string list" where
  "noPayloadTypes = [RejoinRequestType, MuteRequestType]"

definition supportedTypes :: "string list" where
  "supportedTypes = payloadTypes @ noPayloadTypes"

definition zeroRequest :: Request where
  "zeroRequest = \<lparr>Type = [], Param = None\<rparr>"

definition zeroParam :: "string \<Rightarrow> requestParam" where
  "zeroParam t =
     (if t = ResetRequestType then Reset 0
      else if t = GetInfoRequestType then GetInfo None
      else if t = SetConfRequestType
      then SetConf \<lparr>ADRMode = None, JoinEUI = 0, Interval = None, Region = None, OpMode = None\<rparr>
      else if t = FileDoneRequestType then FileDone \<lparr>SID = 0, SCtr = 0\<rparr>
      else FUOTA [])"

definition example_EUI64_UnmarshalJSON :: EUI64_UnmarshalJSON where
  "example_EUI64_UnmarshalJSON e b =
     (case Hex_UnmarshalJSON [] b of
        (h, Some err) \<Rightarrow> (e, Some err)
      | (h, None) \<Rightarrow>
          if length h = 8 then (foldl (\<lambda>w x. push_bit 8 w OR ucast x) 0 h, None)
          else (e, Some (ExternalError ''invalid length'')))"

definition has_param :: "(string \<times> json) list \<Rightarrow> bool" where
  "has_param ms = list_ex (\<lambda>(k, v). equalFold ''param'' (unquote k)) ms"




definition is_UnmarshalTypeError :: "error \<Rightarrow> bool" where
  "is_UnmarshalTypeError e = (case e of UnmarshalTypeError _ _ \<Rightarrow> True | _ \<Rightarrow> False)"








definition valid_string :: "string \<Rightarrow> bool" where
  "valid_string body = (scanString (body @ [dquote]) = Some (body, []))"

definition valid_number :: "string \<Rightarrow> bool" where
  "valid_number lit = (scanNumber lit = Some (lit, []))"

fun valid_json :: "json \<Rightarrow> bool"
  and valid_elements :: "json list \<Rightarrow> bool"
  and valid_members :: "(string \<times> json) list \<Rightarrow> bool"
where
  "valid_json JNull = True"
| "valid_json (JBool b) = True"
| "valid_json (JNumber lit) = valid_number lit"
| "valid_json (JString body) = valid_string body"
| "valid_json (JArray vs) = valid_elements vs"
| "valid_json (JObject ms) = valid_members ms"
| "valid_elements [] = True"
| "valid_elements (v # vs) = (valid_json v \<and> valid_elements vs)"
| "valid_members [] = True"
| "valid_members ((k, v) # ms) = (valid_string k \<and> valid_json v \<and> valid_members ms)"

definition terminated :: "string \<Rightarrow> bool" where
  "terminated rest = (case rest of [] \<Rightarrow> True | c # _ \<Rightarrow> c = CHR '','' \<or> c = CHR '']'' \<or> c = CHR ''}'')"

definition value_start :: "char \<Rightarrow> bool" where
  "value_start c =
     (c = CHR ''{'' \<or> c = CHR ''['' \<or> c = dquote \<or> c = CHR ''t'' \<or> c = CHR ''f'' \<or> c = CHR ''n''
      \<or> c = CHR ''-'' \<or> isDigit c)"

section \<open>Hex: nibbles and digits\<close>

lemma nibble_hi: "unat (drop_bit 4 (v :: byte)) < 16"
proof -
  have "unat v < 256" using unsigned_less [of v, where ?'a = nat] by simp
  then show ?thesis by (simp add: drop_bit_eq_div unat_div)
qed

lemma nibble_lo: "unat ((v :: byte) AND 0x0f) < 16"
proof -
  have "unat (v AND 0x0f) \<le> unat (0x0f :: byte)"
    by (rule word_and_le1 [THEN word_le_nat_alt [THEN iffD1]])
  then show ?thesis by simp
qed

lemma nibble_join: "push_bit 4 (drop_bit 4 (v :: byte)) OR (v AND 0x0f) = v"
proof -
  have "(0x0f :: byte) = mask 4" by (simp add: mask_eq_exp_minus_1)
  then have "v AND 0x0f = take_bit 4 v" by (simp add: take_bit_eq_mask)
  then show ?thesis
    by (rule_tac bit_word_eqI) (auto simp: bit_simps)
qed

lemma below_16: "n < (16 :: nat) \<Longrightarrow> n \<in> {0, 1, 2, 3, 4, 5, 6, 7, 8, 9, 10, 11, 12, 13, 14, 15}"
  by (simp only: insert_iff empty_iff) arith

lemma fromHexChar_hextable: "n < 16 \<Longrightarrow> fromHexChar (hextable ! n) = Some (of_nat n)"
  using below_16 [of n] by (auto simp: fromHexChar_def hextable_def less_eq_char_def)

lemma fromHexChar_hi: "fromHexChar (hextable ! unat (drop_bit 4 (v :: byte))) = Some (drop_bit 4 v)"
  using fromHexChar_hextable [OF nibble_hi [of v]] by simp

lemma fromHexChar_lo: "fromHexChar (hextable ! unat ((v :: byte) AND 0x0f)) = Some (v AND 0x0f)"
  using fromHexChar_hextable [OF nibble_lo [of v]] by simp

lemma hex_Decode_Encode: "hex_Decode (hex_EncodeToString h) = (h, None)"
  by (induction h) (simp_all add: fromHexChar_hi fromHexChar_lo nibble_join)

lemma char_in_range:
  assumes "a \<le> (of_char c :: nat)" and "of_char c < b"
  shows "c \<in> set (map char_of [a..<b])"
proof -
  have "of_char c \<in> set [a..<b]" using assms by simp
  then have "char_of (of_char c :: nat) \<in> char_of ` set [a..<b]" by (rule imageI)
  then show ?thesis by (simp only: char_of_char set_map)
qed

lemma digit_chars: "map char_of [48..<58 :: nat] = ''0123456789''" by code_simp

lemma lower_hex_chars: "map char_of [97..<103 :: nat] = ''abcdef''" by code_simp

lemma upper_hex_chars: "map char_of [65..<71 :: nat] = ''ABCDEF''" by code_simp

lemma fromHexChar_Some_hex: "fromHexChar c = Some a \<Longrightarrow> is_hex_digit c"
proof -
  assume "fromHexChar c = Some a"
  then consider "48 \<le> (of_char c :: nat) \<and> (of_char c :: nat) < 58"
    | "97 \<le> (of_char c :: nat) \<and> (of_char c :: nat) < 103"
    | "65 \<le> (of_char c :: nat) \<and> (of_char c :: nat) < 71"
    by (auto simp: fromHexChar_def less_eq_char_def split: if_splits)
  then show "is_hex_digit c"
  proof cases
    case 1
    then have "c \<in> set ''0123456789''" using char_in_range [of 48 c 58] by (simp only: digit_chars)
    then show ?thesis by (auto simp: is_hex_digit_def)
  next
    case 2
    then have "c \<in> set ''abcdef''" using char_in_range [of 97 c 103] by (simp only: lower_hex_chars)
    then show ?thesis by (auto simp: is_hex_digit_def)
  next
    case 3
    then have "c \<in> set ''ABCDEF''" using char_in_range [of 65 c 71] by (simp only: upper_hex_chars)
    then show ?thesis by (auto simp: is_hex_digit_def)
  qed
qed

lemma char_of_lower_hex:
  "char_of (97 :: nat) = CHR ''a''" "char_of (98 :: nat) = CHR ''b''" "char_of (99 :: nat) = CHR ''c''"
  "char_of (100 :: nat) = CHR ''d''" "char_of (101 :: nat) = CHR ''e''" "char_of (102 :: nat) = CHR ''f''"
  by code_simp+

lemma hex_digit_value:
  "is_hex_digit c \<Longrightarrow> \<exists>a. fromHexChar c = Some a \<and> unat a < 16 \<and> hextable ! unat a = ascii_lower c"
  by (auto simp: is_hex_digit_def fromHexChar_def less_eq_char_def hextable_def ascii_lower_def char_of_lower_hex)

lemma fromHexChar_None_iff: "fromHexChar c = None \<longleftrightarrow> \<not> is_hex_digit c"
  using fromHexChar_Some_hex [of c] hex_digit_value [of c] by (cases "fromHexChar c") auto

lemma TrimPrefix_quote:
  "strings_TrimPrefix b [dquote] = (case b of [] \<Rightarrow> [] | c # cs \<Rightarrow> if c = dquote then cs else b)"
  by (cases b) (auto simp: strings_TrimPrefix_def)

lemma TrimSuffix_quote:
  "strings_TrimSuffix s [dquote] = (if s \<noteq> [] \<and> last s = dquote then butlast s else s)"
proof (cases s rule: rev_cases)
  case Nil
  then show ?thesis by (simp add: strings_TrimSuffix_def)
next
  case (snoc ys y)
  then show ?thesis by (auto simp: strings_TrimSuffix_def)
qed

lemma Trim_strip_quotes:
  "strings_TrimSuffix (strings_TrimPrefix b [dquote]) [dquote] = strip_quotes b"
  by (simp only: TrimPrefix_quote TrimSuffix_quote strip_quotes_def Let_def)

lemma hex_Decode_pair:
  "fromHexChar p = Some a \<Longrightarrow> fromHexChar q = Some b \<Longrightarrow>
   hex_Decode (p # q # src) = ((push_bit 4 a OR b) # fst (hex_Decode src), snd (hex_Decode src))"
  by (simp split: prod.splits)

lemma hex_Decode_ok_iff:
  "snd (hex_Decode s) = None \<longleftrightarrow> even (length s) \<and> (\<forall>c \<in> set s. is_hex_digit c)"
proof (induction s rule: hex_Decode.induct)
  case 1
  then show ?case by simp
next
  case (2 c)
  then show ?case by (simp split: option.splits)
next
  case (3 p q src)
  show ?case
  proof (cases "fromHexChar p")
    case None
    then show ?thesis by (simp add: fromHexChar_None_iff [symmetric])
  next
    case a: (Some a)
    show ?thesis
    proof (cases "fromHexChar q")
      case None
      then show ?thesis using a by (simp add: fromHexChar_None_iff [symmetric])
    next
      case b: (Some b)
      have "is_hex_digit p" "is_hex_digit q"
        using a b fromHexChar_Some_hex by blast+
      then show ?thesis using "3.IH" [OF a b]
        by (simp add: hex_Decode_pair [OF a b] del: hex_Decode.simps)
    qed
  qed
qed

lemma hex_Decode_error_kind: "snd (hex_Decode s) = Some e \<Longrightarrow> is_DecodeError e"
  by (induction s arbitrary: e rule: hex_Decode.induct)
     (auto simp: is_DecodeError_def split: option.splits prod.splits)

lemma nibble_take_bit:
  assumes "unat (a :: byte) < 16"
  shows "take_bit 4 a = a"
proof -
  have "unat (take_bit 4 a) = take_bit 4 (unat a)" by (simp add: unsigned_take_bit_eq)
  also have "\<dots> = unat a" using assms by (simp add: take_bit_nat_eq_self)
  finally show ?thesis by (simp only: word_unat_eq_iff)
qed

lemma nibble_split_hi':
  "drop_bit 4 (push_bit 4 (take_bit 4 (a :: byte)) OR take_bit 4 b) = take_bit 4 a"
  by (rule bit_word_eqI) (auto simp: bit_simps)

lemma nibble_split_lo':
  "(push_bit 4 (take_bit 4 (a :: byte)) OR take_bit 4 b) AND 0x0f = take_bit 4 b"
proof -
  have m: "(0x0f :: byte) = mask 4" by (simp add: mask_eq_exp_minus_1)
  show ?thesis
    unfolding m by (rule bit_word_eqI) (auto simp: bit_simps)
qed

lemma nibble_split_hi: "unat a < 16 \<Longrightarrow> unat b < 16 \<Longrightarrow> drop_bit 4 (push_bit 4 (a :: byte) OR b) = a"
  using nibble_split_hi' [of a b] by (simp only: nibble_take_bit)

lemma nibble_split_lo: "unat a < 16 \<Longrightarrow> unat b < 16 \<Longrightarrow> (push_bit 4 (a :: byte) OR b) AND 0x0f = b"
  using nibble_split_lo' [of a b] by (simp only: nibble_take_bit)

lemma hex_Encode_Decode:
  "even (length s) \<Longrightarrow> \<forall>c \<in> set s. is_hex_digit c \<Longrightarrow>
   hex_EncodeToString (fst (hex_Decode s)) = lowercase s"
proof (induction s rule: hex_Decode.induct)
  case 1
  then show ?case by (simp add: lowercase_def)
next
  case (2 c)
  then show ?case by simp
next
  case (3 p q src)
  from "3.prems" obtain a b where
    a: "fromHexChar p = Some a" "unat a < 16" "hextable ! unat a = ascii_lower p" and
    b: "fromHexChar q = Some b" "unat b < 16" "hextable ! unat b = ascii_lower q"
    using hex_digit_value [of p] hex_digit_value [of q] by auto
  have IH: "hex_EncodeToString (fst (hex_Decode src)) = lowercase src"
    using "3.IH" [OF a(1) b(1)] "3.prems" by simp
  have "hex_EncodeToString (fst (hex_Decode (p # q # src))) =
        hextable ! unat (drop_bit 4 (push_bit 4 a OR b)) #
        hextable ! unat ((push_bit 4 a OR b) AND 0x0f) #
        hex_EncodeToString (fst (hex_Decode src))"
    by (simp only: hex_Decode_pair [OF a(1) b(1)] fst_conv hex_EncodeToString.simps)
  also have "\<dots> = ascii_lower p # ascii_lower q # lowercase src"
    by (simp only: nibble_split_hi [OF a(2) b(2)] nibble_split_lo [OF a(2) b(2)] a(3) b(3) IH)
  finally show ?case by (simp add: lowercase_def)
qed

section \<open>Hex: the claims\<close>

lemma strip_quotes_hex: "\<forall>c \<in> set s. is_hex_digit c \<Longrightarrow> strip_quotes s = s"
proof -
  assume hex: "\<forall>c \<in> set s. is_hex_digit c"
  have nq: "\<not> is_hex_digit dquote" by (simp add: is_hex_digit_def dquote_def)
  show ?thesis
  proof (cases s rule: rev_cases)
    case Nil
    then show ?thesis by (simp add: strip_quotes_def)
  next
    case (snoc ys y)
    then have "hd s \<noteq> dquote" "last s \<noteq> dquote" "s \<noteq> []"
      using hex nq by (cases ys; auto)+
    then show ?thesis by (cases s) (auto simp: strip_quotes_def)
  qed
qed

lemma strip_quotes_quoted: "strip_quotes ([dquote] @ s @ [dquote]) = s"
  by (simp add: strip_quotes_def)

lemma hextable_lower_hex: "n < 16 \<Longrightarrow> hextable ! n \<in> set ''0123456789abcdef''"
  using below_16 [of n] by (auto simp: hextable_def)

lemma hex_EncodeToString_chars: "set (hex_EncodeToString h) \<subseteq> set ''0123456789abcdef''"
proof (induction h)
  case Nil
  then show ?case by simp
next
  case (Cons v h)
  have "hextable ! unat (drop_bit 4 v) \<in> set ''0123456789abcdef''"
       "hextable ! unat (v AND 0x0f) \<in> set ''0123456789abcdef''"
    using hextable_lower_hex nibble_hi nibble_lo by blast+
  then show ?case using Cons.IH by simp
qed

lemma hex_EncodeToString_length: "length (hex_EncodeToString h) = 2 * length h"
  by (induction h) simp_all

lemma hex_EncodeToString_digits:
  "map fromHexChar (hex_EncodeToString h) =
   concat (map (\<lambda>v. [Some (drop_bit 4 v), Some (v AND 0x0f)]) h)"
  by (induction h) (simp_all add: fromHexChar_hi fromHexChar_lo)

text \<open>
  C3. Hex encode never returns an error. Its output is a double quote, two characters for
  each input byte, and a double quote; the characters are lowercase hexadecimal digits, the
  first the value of the byte's high four bits and the second of its low four bits, so there
  is no separator and no prefix; the empty byte sequence gives the two characters \<^verbatim>\<open>""\<close>.
\<close>

theorem Hex_MarshalJSON_total:
  "snd (Hex_MarshalJSON h) = None
   \<and> (\<exists>ds. fst (Hex_MarshalJSON h) = [dquote] @ ds @ [dquote]
          \<and> length ds = 2 * length h
          \<and> set ds \<subseteq> set ''0123456789abcdef''
          \<and> map fromHexChar ds = concat (map (\<lambda>v. [Some (drop_bit 4 v), Some (v AND 0x0f)]) h))
   \<and> fst (Hex_MarshalJSON []) = [dquote, dquote]"
proof -
  have "fst (Hex_MarshalJSON h) = [dquote] @ hex_EncodeToString h @ [dquote]"
    by (simp add: Hex_MarshalJSON_def)
  then have "\<exists>ds. fst (Hex_MarshalJSON h) = [dquote] @ ds @ [dquote]
          \<and> length ds = 2 * length h
          \<and> set ds \<subseteq> set ''0123456789abcdef''
          \<and> map fromHexChar ds = concat (map (\<lambda>v. [Some (drop_bit 4 v), Some (v AND 0x0f)]) h)"
    using hex_EncodeToString_length hex_EncodeToString_chars hex_EncodeToString_digits by blast
  then show ?thesis by (simp add: Hex_MarshalJSON_def)
qed

theorem Hex_MarshalJSON_total_witness:
  "Hex_MarshalJSON [0xde, 0xad, 0x0f] = ([dquote] @ ''dead0f'' @ [dquote], None)"
proof -
  have "snd (Hex_MarshalJSON [0xde, 0xad, 0x0f]) = None"
    using Hex_MarshalJSON_total [of "[0xde, 0xad, 0x0f]"] by blast
  then show ?thesis by (simp add: Hex_MarshalJSON_def hextable_def)
qed

text \<open>
  C2, as amended. Decoding the output of Hex encode gives back the bytes, whatever the receiver
  held. For a text \<open>s\<close> of even length made of hexadecimal digits only, decoding succeeds and
  encoding the decoded bytes gives the lowercase form of \<open>s\<close> between two double quotes (not
  the bare lowercase form: the encoder always adds the quotes).
\<close>

theorem Hex_roundtrip:
  "Hex_UnmarshalJSON h0 (fst (Hex_MarshalJSON b)) = (b, None)
   \<and> (even (length s) \<and> (\<forall>c \<in> set s. is_hex_digit c) \<longrightarrow>
        snd (Hex_UnmarshalJSON h0 s) = None
        \<and> Hex_MarshalJSON (fst (Hex_UnmarshalJSON h0 s)) = ([dquote] @ lowercase s @ [dquote], None))"
proof -
  have "Hex_UnmarshalJSON h0 (fst (Hex_MarshalJSON b)) = (b, None)"
    by (simp only: Hex_UnmarshalJSON_def Hex_MarshalJSON_def fst_conv Trim_strip_quotes Let_def
          strip_quotes_quoted hex_DecodeString_def
          hex_Decode_Encode)
  moreover have "snd (Hex_UnmarshalJSON h0 s) = None
        \<and> Hex_MarshalJSON (fst (Hex_UnmarshalJSON h0 s)) = ([dquote] @ lowercase s @ [dquote], None)"
    if s: "even (length s)" "\<forall>c \<in> set s. is_hex_digit c"
  proof -
    have "Hex_UnmarshalJSON h0 s = hex_Decode s"
      by (simp only: Hex_UnmarshalJSON_def Trim_strip_quotes Let_def strip_quotes_hex [OF s(2)]
            hex_DecodeString_def)
    then show ?thesis
      using s hex_Decode_ok_iff [of s] hex_Encode_Decode [of s]
      by (simp add: Hex_MarshalJSON_def)
  qed
  ultimately show ?thesis by blast
qed

theorem Hex_roundtrip_witness:
  "Hex_UnmarshalJSON [] (fst (Hex_MarshalJSON [0xde, 0xad])) = ([0xde, 0xad], None)
   \<and> snd (Hex_UnmarshalJSON [] ''DEad'') = None
   \<and> Hex_MarshalJSON (fst (Hex_UnmarshalJSON [] ''DEad'')) = ([dquote] @ ''dead'' @ [dquote], None)"
proof -
  have hex: "even (length ''DEad'') \<and> (\<forall>c \<in> set ''DEad''. is_hex_digit c)"
    by (simp add: is_hex_digit_def)
  have low: "lowercase ''DEad'' = ''dead''"
    by (simp add: lowercase_def ascii_lower_def less_eq_char_def) code_simp
  note inst = Hex_roundtrip [of "[]" "[0xde, 0xad]" "''DEad''"]
  from inst have "Hex_UnmarshalJSON [] (fst (Hex_MarshalJSON [0xde, 0xad])) = ([0xde, 0xad], None)"
    by (rule conjunct1)
  moreover from inst hex have "snd (Hex_UnmarshalJSON [] ''DEad'') = None
      \<and> Hex_MarshalJSON (fst (Hex_UnmarshalJSON [] ''DEad'')) =
          ([dquote] @ lowercase ''DEad'' @ [dquote], None)"
    by blast
  ultimately show ?thesis by (simp only: low)
qed

text \<open>
  C2 as the specification states it fails: encoding the bytes decoded from \<^verbatim>\<open>AB\<close> does not
  give the two characters \<^verbatim>\<open>ab\<close> but the four characters \<^verbatim>\<open>"ab"\<close>.
\<close>

theorem Hex_encode_decode_counterexample:
  "fst (Hex_MarshalJSON (fst (Hex_UnmarshalJSON [] ''AB''))) \<noteq> lowercase ''AB''
   \<and> fst (Hex_MarshalJSON (fst (Hex_UnmarshalJSON [] ''AB''))) = [dquote] @ ''ab'' @ [dquote]"
  by (simp add: Hex_UnmarshalJSON_def strings_TrimPrefix_def strings_TrimSuffix_def
        hex_DecodeString_def fromHexChar_def less_eq_char_def dquote_def Hex_MarshalJSON_def
        hextable_def lowercase_def)

text \<open>
  C4. Hex decode is the hexadecimal decoder applied to the text left after one leading and
  one trailing double quote are stripped. It returns an error exactly when that text has odd
  length or holds a character outside \<^verbatim>\<open>[0-9a-fA-F]\<close>, and every error it returns is a
  decode error (bad length or invalid byte); when it succeeds, the bytes it returns are the
  ones the text denotes: their lowercase hexadecimal form is the lowercase form of the text.
\<close>

theorem Hex_UnmarshalJSON_fails_iff:
  "Hex_UnmarshalJSON h b = hex_DecodeString (strip_quotes b)
   \<and> (snd (Hex_UnmarshalJSON h b) \<noteq> None \<longleftrightarrow>
        odd (length (strip_quotes b)) \<or> (\<exists>c \<in> set (strip_quotes b). \<not> is_hex_digit c))
   \<and> (\<forall>e. snd (Hex_UnmarshalJSON h b) = Some e \<longrightarrow> is_DecodeError e)
   \<and> (snd (Hex_UnmarshalJSON h b) = None \<longrightarrow>
        hex_EncodeToString (fst (Hex_UnmarshalJSON h b)) = lowercase (strip_quotes b))"
proof -
  have eq: "Hex_UnmarshalJSON h b = hex_Decode (strip_quotes b)"
    by (simp only: Hex_UnmarshalJSON_def Trim_strip_quotes Let_def hex_DecodeString_def)
  have "snd (hex_Decode (strip_quotes b)) \<noteq> None \<longleftrightarrow>
        odd (length (strip_quotes b)) \<or> (\<exists>c \<in> set (strip_quotes b). \<not> is_hex_digit c)"
    using hex_Decode_ok_iff [of "strip_quotes b"] by auto
  moreover have "\<forall>e. snd (hex_Decode (strip_quotes b)) = Some e \<longrightarrow> is_DecodeError e"
    using hex_Decode_error_kind by blast
  moreover have "snd (hex_Decode (strip_quotes b)) = None \<longrightarrow>
        hex_EncodeToString (fst (hex_Decode (strip_quotes b))) = lowercase (strip_quotes b)"
    using hex_Decode_ok_iff [of "strip_quotes b"] hex_Encode_Decode [of "strip_quotes b"] by blast
  ultimately show ?thesis
    by (simp only: eq hex_DecodeString_def)
qed

theorem Hex_UnmarshalJSON_fails_iff_witness:
  "Hex_UnmarshalJSON [] ([dquote] @ ''abc'' @ [dquote]) = ([0xab], Some ErrLength)
   \<and> odd (length (strip_quotes ([dquote] @ ''abc'' @ [dquote])))
   \<and> is_DecodeError ErrLength
   \<and> Hex_UnmarshalJSON [] ([dquote] @ ''abcd'' @ [dquote]) = ([0xab, 0xcd], None)
   \<and> hex_EncodeToString [0xab, 0xcd] = lowercase (strip_quotes ([dquote] @ ''abcd'' @ [dquote]))"
proof -
  have bad: "Hex_UnmarshalJSON [] ([dquote] @ ''abc'' @ [dquote]) = ([0xab], Some ErrLength)"
    and ok: "Hex_UnmarshalJSON [] ([dquote] @ ''abcd'' @ [dquote]) = ([0xab, 0xcd], None)"
    by (simp_all add: Hex_UnmarshalJSON_def strings_TrimPrefix_def strings_TrimSuffix_def
          hex_DecodeString_def fromHexChar_def less_eq_char_def dquote_def)
  have odd: "odd (length (strip_quotes ([dquote] @ ''abc'' @ [dquote])))"
    by (simp only: strip_quotes_quoted) simp
  from Hex_UnmarshalJSON_fails_iff [of "[]" "[dquote] @ ''abc'' @ [dquote]"]
  have "\<forall>e. snd (Hex_UnmarshalJSON [] ([dquote] @ ''abc'' @ [dquote])) = Some e \<longrightarrow> is_DecodeError e"
    by blast
  then have kind: "is_DecodeError ErrLength"
    by (simp only: bad snd_conv)
  from Hex_UnmarshalJSON_fails_iff [of "[]" "[dquote] @ ''abcd'' @ [dquote]"]
  have "snd (Hex_UnmarshalJSON [] ([dquote] @ ''abcd'' @ [dquote])) = None \<longrightarrow>
        hex_EncodeToString (fst (Hex_UnmarshalJSON [] ([dquote] @ ''abcd'' @ [dquote]))) =
        lowercase (strip_quotes ([dquote] @ ''abcd'' @ [dquote]))"
    by blast
  then have "hex_EncodeToString [0xab, 0xcd] = lowercase (strip_quotes ([dquote] @ ''abcd'' @ [dquote]))"
    by (simp only: ok snd_conv fst_conv)
  with bad ok odd kind show ?thesis by blast
qed

section \<open>Request decode: the dispatch on the discriminator\<close>

declare unquote.simps [simp del] parseValue.simps [simp del] parseElements.simps [simp del]
  parseMembers.simps [simp del] strconv_FormatUint.simps [simp del]

lemmas type_names = ResetRequestType_def RejoinRequestType_def MuteRequestType_def
  GetInfoRequestType_def SetConfRequestType_def FileDoneRequestType_def FUOTARequestType_def


lemma unsupported_type:
  "envelope b = (br, None) \<Longrightarrow> base_Type br \<notin> set supportedTypes \<Longrightarrow>
   Request_UnmarshalJSON eui r b =
     (r\<lparr>Type := base_Type br\<rparr>, Some (errInvalidRequestType (base_Type br)))"
  by (simp add: Request_UnmarshalJSON_def envelope_def supportedTypes_def payloadTypes_def
        noPayloadTypes_def)

lemma no_payload_type:
  "envelope b = (br, None) \<Longrightarrow> base_Type br \<in> set noPayloadTypes \<Longrightarrow>
   Request_UnmarshalJSON eui r b = (r\<lparr>Type := base_Type br\<rparr>, None)"
  by (auto simp: Request_UnmarshalJSON_def envelope_def noPayloadTypes_def type_names)

lemma payload_type:
  "envelope b = (br, None) \<Longrightarrow> base_Type br \<in> set payloadTypes \<Longrightarrow>
   Request_UnmarshalJSON eui r b =
     (r\<lparr>Type := base_Type br,
        Param := Some (fst (json_Unmarshal_requestParam eui (base_Param br) (zeroParam (base_Type br))))\<rparr>,
      snd (json_Unmarshal_requestParam eui (base_Param br) (zeroParam (base_Type br))))"
  by (auto simp: Request_UnmarshalJSON_def envelope_def payloadTypes_def type_names zeroParam_def
        Let_def split: prod.splits)

lemma FOO_envelope:
  \<open>envelope ''{"type":"FOO","param":{}}'' = (\<lparr>base_Type = ''FOO'', base_Param = Some (JObject [])\<rparr>, None)\<close>
  by code_simp

lemma equalFold_type:
  "equalFold ''type'' key = simpleLetterEqualFold ''type'' key"
  "equalFold ''param'' key = simpleLetterEqualFold ''param'' key"
  by (simp_all add: equalFold_def foldFunc_def caseMask_def less_char_def less_eq_char_def)

lemma simpleLetterEqualFold_refl: "simpleLetterEqualFold s s"
  by (simp add: simpleLetterEqualFold_def list_all2_same)

lemma simpleLetterEqualFold_length: "simpleLetterEqualFold s t \<Longrightarrow> length t = length s"
  by (simp add: simpleLetterEqualFold_def)

lemma findField_param:
  "findField [''type'', ''param''] key = Some ''param'' \<longleftrightarrow> equalFold ''param'' key"
  using simpleLetterEqualFold_length [of "''type''" key]
    simpleLetterEqualFold_length [of "''param''" key] simpleLetterEqualFold_refl [of "''param''"]
  by (auto simp: findField_def equalFold_type split: option.splits)

lemma unquote_plain:
  "backslash \<notin> set s \<Longrightarrow> \<forall>c\<in>set s. c < CHR 0x80 \<Longrightarrow> unquote s = s"
  by (induction s) (auto simp: unquote.simps)

lemma unquote_names:
  "unquote ''type'' = ''type''" "unquote ''param'' = ''param''"
  by (simp_all add: unquote_plain backslash_def less_char_def)

lemma findField_type: "findField [''type'', ''param''] ''type'' = Some ''type''"
  "findField [''type'', ''param''] ''param'' = Some ''param''"
  by (simp_all add: findField_def)

lemma baseRequest_field_type:
  "baseRequest_field ''type'' j br =
     (br\<lparr>base_Type := fst (decode_string ''string'' j (base_Type br))\<rparr>,
      snd (decode_string ''string'' j (base_Type br)), None)"
  by (simp add: baseRequest_field_def split: prod.splits)

lemma baseRequest_field_param:
  "baseRequest_field ''param'' j br = (br\<lparr>base_Param := Some j\<rparr>, None, None)"
  by (simp add: baseRequest_field_def)

lemma standard_envelope:
  "json_parse b = Some (JObject [(''type'', JString t), (''param'', p)]) \<Longrightarrow>
   envelope b = (\<lparr>base_Type = unquote t, base_Param = Some p\<rparr>, None)"
  by (simp add: envelope_def json_Unmarshal_baseRequest_def decode_struct_def unquote_names
        findField_type baseRequest_field_type baseRequest_field_param decode_string_def saveError_def unmarshal_result_def)

lemma bare_envelope:
  "json_parse b = Some (JObject [(''type'', JString t)]) \<Longrightarrow>
   envelope b = (\<lparr>base_Type = unquote t, base_Param = None\<rparr>, None)"
  by (simp add: envelope_def json_Unmarshal_baseRequest_def decode_struct_def unquote_names
        findField_type baseRequest_field_type baseRequest_field_param decode_string_def saveError_def unmarshal_result_def)

lemma decode_members_no_param:
  "decode_members baseRequest_field [''type'', ''param''] ms br = (br', saved, hard) \<Longrightarrow>
   \<not> has_param ms \<Longrightarrow> base_Param br' = base_Param br"
proof (induction ms arbitrary: br br' saved hard)
  case Nil
  then show ?case by simp
next
  case (Cons m ms)
  obtain k j where m: "m = (k, j)" by (cases m)
  from Cons.prems have np: "\<not> has_param ms" and nk: "\<not> equalFold ''param'' (unquote k)"
    by (simp_all add: has_param_def m)
  show ?case
  proof (cases "findField [''type'', ''param''] (unquote k)")
    case None
    then show ?thesis using Cons.IH [OF _ np] Cons.prems(1) by (simp add: m)
  next
    case (Some f)
    then have f: "f = ''type''"
      using nk findField_param [of "unquote k"]
      by (auto simp: findField_def split: option.splits if_splits)
    obtain s sv where d: "decode_string ''string'' j (base_Type br) = (s, sv)"
      by (cases "decode_string ''string'' j (base_Type br)")
    obtain br2 sv2 h2 where
      r: "decode_members baseRequest_field [''type'', ''param''] ms (br\<lparr>base_Type := s\<rparr>) = (br2, sv2, h2)"
      by (cases "decode_members baseRequest_field [''type'', ''param''] ms (br\<lparr>base_Type := s\<rparr>)")
    have "br' = br2"
      using Cons.prems(1) Some by (simp add: m f baseRequest_field_type d r)
    then show ?thesis using Cons.IH [OF r np] by simp
  qed
qed

lemma no_param_envelope:
  assumes "json_parse b = Some (JObject ms)" and "\<not> has_param ms"
  shows "base_Param (fst (envelope b)) = None"
proof -
  obtain br saved hard where
    d: "decode_members baseRequest_field [''type'', ''param''] ms \<lparr>base_Type = [], base_Param = None\<rparr>
          = (br, saved, hard)"
    by (cases "decode_members baseRequest_field [''type'', ''param''] ms \<lparr>base_Type = [], base_Param = None\<rparr>")
  have "base_Param br = None"
    using decode_members_no_param [OF d assms(2)] by simp
  then show ?thesis
    using assms(1) d
    by (cases hard) (simp_all add: envelope_def json_Unmarshal_baseRequest_def decode_struct_def
          unmarshal_result_def)
qed

lemma supported_names:
  "set supportedTypes = {''RESET'', ''GETINFO'', ''SETCONF'', ''FILEDONE'', ''FUOTA'', ''REJOIN'', ''MUTE''}"
  by (auto simp: supportedTypes_def payloadTypes_def noPayloadTypes_def type_names)

lemma payload_not_no_payload: "t \<in> set payloadTypes \<Longrightarrow> t \<notin> set noPayloadTypes"
  by (auto simp: payloadTypes_def noPayloadTypes_def type_names)

lemma supported_cases:
  "t \<in> set supportedTypes \<longleftrightarrow> t \<in> set payloadTypes \<or> t \<in> set noPayloadTypes"
  by (simp add: supportedTypes_def)

text \<open>
  C5. Whenever the envelope decodes without error and its discriminator is none of the seven
  supported ones, Request decode returns \<open>errInvalidRequestType\<close> carrying that
  discriminator; the result does not depend on the payload (the receiver's \<open>Param\<close> is not
  touched, the EUI decoder is not called). In particular an envelope
  \<^verbatim>\<open>{"type":t,"param":p}\<close> is rejected so for every payload \<open>p\<close>.
\<close>

theorem unknown_discriminator_rejected:
  "(envelope b = (br, None) \<and> base_Type br \<notin> set supportedTypes \<longrightarrow>
      Request_UnmarshalJSON eui r b =
        (r\<lparr>Type := base_Type br\<rparr>, Some (errInvalidRequestType (base_Type br))))
   \<and> (json_parse b = Some (JObject [(''type'', JString t), (''param'', p)])
        \<and> unquote t \<notin> set supportedTypes \<longrightarrow>
      Request_UnmarshalJSON eui r b =
        (r\<lparr>Type := unquote t\<rparr>, Some (errInvalidRequestType (unquote t))))"
proof (intro conjI impI)
  assume "envelope b = (br, None) \<and> base_Type br \<notin> set supportedTypes"
  then show "Request_UnmarshalJSON eui r b =
        (r\<lparr>Type := base_Type br\<rparr>, Some (errInvalidRequestType (base_Type br)))"
    using unsupported_type by blast
next
  assume a: "json_parse b = Some (JObject [(''type'', JString t), (''param'', p)])
        \<and> unquote t \<notin> set supportedTypes"
  then have "envelope b = (\<lparr>base_Type = unquote t, base_Param = Some p\<rparr>, None)"
    using standard_envelope by blast
  then show "Request_UnmarshalJSON eui r b =
        (r\<lparr>Type := unquote t\<rparr>, Some (errInvalidRequestType (unquote t)))"
    using a unsupported_type [of b "\<lparr>base_Type = unquote t, base_Param = Some p\<rparr>" eui r] by simp
qed

theorem unknown_discriminator_rejected_witness:
  \<open>json_parse ''{"type":"FOO","param":{}}'' = Some (JObject [(''type'', JString ''FOO''), (''param'', JObject [])])
   \<and> unquote ''FOO'' \<notin> set supportedTypes
   \<and> Request_UnmarshalJSON example_EUI64_UnmarshalJSON zeroRequest ''{"type":"FOO","param":{}}'' =
       (\<lparr>Type = ''FOO'', Param = None\<rparr>, Some (errInvalidRequestType ''FOO''))\<close>
proof -
  have p: \<open>json_parse ''{"type":"FOO","param":{}}'' =
      Some (JObject [(''type'', JString ''FOO''), (''param'', JObject [])])\<close>
    by code_simp
  have u: "unquote ''FOO'' = ''FOO''" by (simp add: unquote_plain backslash_def less_char_def)
  have n: "unquote ''FOO'' \<notin> set supportedTypes"
    unfolding u by (simp add: supported_names)
  from unknown_discriminator_rejected
    [where b = \<open>''{"type":"FOO","param":{}}''\<close> and t = "''FOO''" and p = "JObject []"
       and eui = example_EUI64_UnmarshalJSON and r = zeroRequest] p n
  have "Request_UnmarshalJSON example_EUI64_UnmarshalJSON zeroRequest ''{\"type\":\"FOO\",\"param\":{}}'' =
        (zeroRequest\<lparr>Type := unquote ''FOO''\<rparr>, Some (errInvalidRequestType (unquote ''FOO'')))"
    by blast
  then have "Request_UnmarshalJSON example_EUI64_UnmarshalJSON zeroRequest ''{\"type\":\"FOO\",\"param\":{}}'' =
        (\<lparr>Type = ''FOO'', Param = None\<rparr>, Some (errInvalidRequestType ''FOO''))"
    unfolding u zeroRequest_def by simp
  with p n show ?thesis by blast
qed

lemma unquote_no_payload: "t \<in> set noPayloadTypes \<Longrightarrow> unquote t = t"
  by (auto simp: noPayloadTypes_def type_names unquote_plain backslash_def less_char_def)

text \<open>
  C7. When the envelope decodes with the discriminator \<^verbatim>\<open>REJOIN\<close> or \<^verbatim>\<open>MUTE\<close>, decode
  succeeds and only sets the receiver's \<open>Type\<close>, whatever the payload is. So an envelope
  with any payload \<open>p\<close> and the envelope with no \<^verbatim>\<open>param\<close> member decode, into a zero
  request, to the same request: the discriminator and no parameter.
\<close>

theorem no_payload_ignored:
  "(envelope b = (br, None) \<and> base_Type br \<in> set noPayloadTypes \<longrightarrow>
      Request_UnmarshalJSON eui r b = (r\<lparr>Type := base_Type br\<rparr>, None))
   \<and> (t \<in> set noPayloadTypes
        \<and> json_parse b = Some (JObject [(''type'', JString t), (''param'', p)])
        \<and> json_parse b' = Some (JObject [(''type'', JString t)]) \<longrightarrow>
      Request_UnmarshalJSON eui zeroRequest b = (\<lparr>Type = t, Param = None\<rparr>, None)
      \<and> Request_UnmarshalJSON eui zeroRequest b' = (\<lparr>Type = t, Param = None\<rparr>, None))"
proof (intro conjI impI)
  assume "envelope b = (br, None) \<and> base_Type br \<in> set noPayloadTypes"
  then show "Request_UnmarshalJSON eui r b = (r\<lparr>Type := base_Type br\<rparr>, None)"
    using no_payload_type by blast
next
  assume a: "t \<in> set noPayloadTypes
        \<and> json_parse b = Some (JObject [(''type'', JString t), (''param'', p)])
        \<and> json_parse b' = Some (JObject [(''type'', JString t)])"
  then have u: "unquote t = t" using unquote_no_payload by blast
  from a have e: "envelope b = (\<lparr>base_Type = t, base_Param = Some p\<rparr>, None)"
    using standard_envelope [of b t p] u by simp
  show "Request_UnmarshalJSON eui zeroRequest b = (\<lparr>Type = t, Param = None\<rparr>, None)"
    using no_payload_type [OF e, of eui zeroRequest] a by (simp add: zeroRequest_def)
next
  assume a: "t \<in> set noPayloadTypes
        \<and> json_parse b = Some (JObject [(''type'', JString t), (''param'', p)])
        \<and> json_parse b' = Some (JObject [(''type'', JString t)])"
  then have u: "unquote t = t" using unquote_no_payload by blast
  from a have e: "envelope b' = (\<lparr>base_Type = t, base_Param = None\<rparr>, None)"
    using bare_envelope [of b' t] u by simp
  show "Request_UnmarshalJSON eui zeroRequest b' = (\<lparr>Type = t, Param = None\<rparr>, None)"
    using no_payload_type [OF e, of eui zeroRequest] a by (simp add: zeroRequest_def)
qed

theorem no_payload_ignored_witness:
  \<open>''MUTE'' \<in> set noPayloadTypes
   \<and> json_parse ''{"type":"MUTE","param":"ignored"}'' =
       Some (JObject [(''type'', JString ''MUTE''), (''param'', JString ''ignored'')])
   \<and> json_parse ''{"type":"MUTE"}'' = Some (JObject [(''type'', JString ''MUTE'')])
   \<and> Request_UnmarshalJSON example_EUI64_UnmarshalJSON zeroRequest ''{"type":"MUTE","param":"ignored"}'' =
       (\<lparr>Type = ''MUTE'', Param = None\<rparr>, None)
   \<and> Request_UnmarshalJSON example_EUI64_UnmarshalJSON zeroRequest ''{"type":"MUTE"}'' =
       (\<lparr>Type = ''MUTE'', Param = None\<rparr>, None)\<close>
proof -
  have m: "''MUTE'' \<in> set noPayloadTypes"
    by (simp add: noPayloadTypes_def type_names)
  have p: \<open>json_parse ''{"type":"MUTE","param":"ignored"}'' =
       Some (JObject [(''type'', JString ''MUTE''), (''param'', JString ''ignored'')])\<close>
    by code_simp
  have p': \<open>json_parse ''{"type":"MUTE"}'' = Some (JObject [(''type'', JString ''MUTE'')])\<close>
    by code_simp
  from no_payload_ignored
    [where t = "''MUTE''" and b = \<open>''{"type":"MUTE","param":"ignored"}''\<close>
       and p = "JString ''ignored''" and b' = \<open>''{"type":"MUTE"}''\<close>
       and eui = example_EUI64_UnmarshalJSON] m p p'
  show ?thesis by blast
qed

text \<open>
  C10. When the envelope decodes and holds no payload, decode succeeds exactly for the
  discriminators \<^verbatim>\<open>REJOIN\<close> and \<^verbatim>\<open>MUTE\<close>; for the five payload-carrying discriminators it
  fails with the syntax error of the empty input (for any other discriminator with
  \<open>errInvalidRequestType\<close>). An envelope none of whose member names is \<^verbatim>\<open>param\<close> (in any
  letter case) holds no payload.
\<close>

theorem absent_param_fails:
  "(envelope b = (br, None) \<and> base_Param br = None \<longrightarrow>
      (snd (Request_UnmarshalJSON eui r b) = None \<longleftrightarrow> base_Type br \<in> set noPayloadTypes)
      \<and> (base_Type br \<in> set payloadTypes \<longrightarrow>
           snd (Request_UnmarshalJSON eui r b) = Some (SyntaxError ''unexpected end of JSON input'')))
   \<and> (json_parse b = Some (JObject ms) \<and> \<not> has_param ms \<longrightarrow> base_Param (fst (envelope b)) = None)"
proof (intro conjI impI)
  assume a: "envelope b = (br, None) \<and> base_Param br = None"
  show "snd (Request_UnmarshalJSON eui r b) = None \<longleftrightarrow> base_Type br \<in> set noPayloadTypes"
  proof (cases "base_Type br \<in> set supportedTypes")
    case False
    then show ?thesis
      using a unsupported_type [of b br eui r] by (simp add: supported_cases)
  next
    case True
    then consider "base_Type br \<in> set payloadTypes" | "base_Type br \<in> set noPayloadTypes"
      using supported_cases by blast
    then show ?thesis
    proof cases
      case 1
      then show ?thesis
        using a payload_type [of b br eui r] payload_not_no_payload
        by (auto simp: json_Unmarshal_requestParam_def)
    next
      case 2
      then show ?thesis using a no_payload_type [of b br eui r] by simp
    qed
  qed
next
  assume a: "envelope b = (br, None) \<and> base_Param br = None"
    and t: "base_Type br \<in> set payloadTypes"
  show "snd (Request_UnmarshalJSON eui r b) = Some (SyntaxError ''unexpected end of JSON input'')"
    using a t payload_type [of b br eui r] by (simp add: json_Unmarshal_requestParam_def)
next
  assume "json_parse b = Some (JObject ms) \<and> \<not> has_param ms"
  then show "base_Param (fst (envelope b)) = None"
    using no_param_envelope by blast
qed

theorem absent_param_fails_witness:
  \<open>envelope ''{"type":"RESET"}'' = (\<lparr>base_Type = ''RESET'', base_Param = None\<rparr>, None)
   \<and> ''RESET'' \<in> set payloadTypes
   \<and> snd (Request_UnmarshalJSON example_EUI64_UnmarshalJSON zeroRequest ''{"type":"RESET"}'') =
       Some (SyntaxError ''unexpected end of JSON input'')
   \<and> json_parse ''{"type":"RESET"}'' = Some (JObject [(''type'', JString ''RESET'')])
   \<and> \<not> has_param [(''type'', JString ''RESET'')]\<close>
proof -
  have e: \<open>envelope ''{"type":"RESET"}'' = (\<lparr>base_Type = ''RESET'', base_Param = None\<rparr>, None)\<close>
    by code_simp
  have t: "''RESET'' \<in> set payloadTypes"
    by (simp add: payloadTypes_def type_names)
  have p: \<open>json_parse ''{"type":"RESET"}'' = Some (JObject [(''type'', JString ''RESET'')])\<close>
    by code_simp
  have h: "\<not> has_param [(''type'', JString ''RESET'')]"
    by code_simp
  from absent_param_fails
    [where b = \<open>''{"type":"RESET"}''\<close> and br = "\<lparr>base_Type = ''RESET'', base_Param = None\<rparr>"
       and eui = example_EUI64_UnmarshalJSON and r = zeroRequest] e t
  have "snd (Request_UnmarshalJSON example_EUI64_UnmarshalJSON zeroRequest ''{\"type\":\"RESET\"}'') =
       Some (SyntaxError ''unexpected end of JSON input'')"
    by simp
  with e t p h show ?thesis by blast
qed

text \<open>
  C8, the code at the claim's input. Decoding \<^verbatim>\<open>{"type":"SETCONF","param":{"region":2}}\<close>
  leaves \<open>ADRMode\<close>, \<open>Interval\<close> and \<open>OpMode\<close> absent and sets \<open>Region\<close>, but
  \<open>JoinEUI\<close> is not absent: the field is a value, not a pointer, and holds the zero EUI, as
  it does after decoding a payload that sets \<^verbatim>\<open>joineui\<close> to the zero EUI.
\<close>

theorem setconf_joineui_zero:
  \<open>Request_UnmarshalJSON eui zeroRequest ''{"type":"SETCONF","param":{"region":2}}'' =
     (\<lparr>Type = ''SETCONF'',
       Param = Some (SetConf \<lparr>ADRMode = None, JoinEUI = 0, Interval = None, Region = Some 2,
                               OpMode = None\<rparr>)\<rparr>, None)
   \<and> Request_UnmarshalJSON example_EUI64_UnmarshalJSON zeroRequest
        ''{"type":"SETCONF","param":{"joineui":"0000000000000000","region":2}}'' =
     (\<lparr>Type = ''SETCONF'',
       Param = Some (SetConf \<lparr>ADRMode = None, JoinEUI = 0, Interval = None, Region = Some 2,
                               OpMode = None\<rparr>)\<rparr>, None)\<close>
  by code_simp

section \<open>Request decode: payloads and failures\<close>


lemma decode_uint_error_kind:
  "snd (decode_uint ty j v) = Some e \<Longrightarrow> is_UnmarshalTypeError e"
  by (cases j) (auto simp: decode_uint_def is_UnmarshalTypeError_def split: option.splits if_splits)


lemma decode_uint_ptr_error_kind:
  "snd (decode_uint_ptr ty j p) = Some e \<Longrightarrow> is_UnmarshalTypeError e"
  using decode_uint_error_kind [of ty j "case p of None \<Rightarrow> 0 | Some v \<Rightarrow> v" e]
  by (cases j) (auto simp: decode_uint_ptr_def split: prod.splits)

















































section \<open>The parser on the encoder's text\<close>

lemma scanString_append:
  "scanString s = Some (body, r) \<Longrightarrow> scanString (s @ rest) = Some (body, r @ rest)"
proof (induction s arbitrary: body r rule: scanString.induct)
  case 1
  then show ?case by simp
next
  case (2 c cs)
  show ?case
  proof (cases "c = dquote")
    case True
    then show ?thesis using "2.prems" by simp
  next
    case nq: False
    show ?thesis
    proof (cases "c = backslash")
      case bs: True
      show ?thesis
      proof (cases cs)
        case Nil
        then show ?thesis using "2.prems" nq bs by simp
      next
        case (Cons e es)
        consider (simple) "e \<in> set [CHR ''b'', CHR ''f'', CHR ''n'', CHR ''r'', CHR ''t'', backslash, CHR ''/'', dquote]"
          | (u) "e \<notin> set [CHR ''b'', CHR ''f'', CHR ''n'', CHR ''r'', CHR ''t'', backslash, CHR ''/'', dquote]"
                "e = CHR ''u'' \<and> length es \<ge> 4 \<and> list_all isHex (take 4 es)"
          | (bad) "e \<notin> set [CHR ''b'', CHR ''f'', CHR ''n'', CHR ''r'', CHR ''t'', backslash, CHR ''/'', dquote]"
                "\<not> (e = CHR ''u'' \<and> length es \<ge> 4 \<and> list_all isHex (take 4 es))"
          by blast
        then show ?thesis
        proof cases
          case simple
          then obtain b' where b': "scanString es = Some (b', r)" "body = c # e # b'"
            using "2.prems" nq bs Cons by (auto split: option.splits)
          have "scanString (es @ rest) = Some (b', r @ rest)"
            using "2.IH"(1) [OF nq bs Cons simple b'(1)] .
          then show ?thesis using nq bs Cons simple b'(2) by simp
        next
          case u
          then obtain b' where b': "scanString (drop 4 es) = Some (b', r)" "body = c # e # take 4 es @ b'"
            using "2.prems" nq bs Cons by (auto split: option.splits)
          have "scanString (drop 4 es @ rest) = Some (b', r @ rest)"
            using "2.IH"(2) [OF nq bs Cons u(1) u(2) b'(1)] .
          then show ?thesis using nq bs Cons u b'(2) by simp
        next
          case bad
          then show ?thesis using "2.prems" nq bs Cons by (auto split: if_splits)
        qed
      qed
    next
      case nb: False
      show ?thesis
      proof (cases "c < CHR 0x20")
        case True
        then show ?thesis using "2.prems" nq nb by simp
      next
        case False
        then obtain b' where b': "scanString cs = Some (b', r)" "body = c # b'"
          using "2.prems" nq nb by (auto split: option.splits)
        have "scanString (cs @ rest) = Some (b', r @ rest)"
          using "2.IH"(3) [OF nq nb False b'(1)] .
        then show ?thesis using nq nb False b'(2) by simp
      qed
    qed
  qed
qed

lemma valid_string_scan:
  "valid_string body \<Longrightarrow> scanString (body @ dquote # rest) = Some (body, rest)"
  using scanString_append [of "body @ [dquote]" body "[]" rest] by (simp add: valid_string_def)

lemma terminated_not_digit: "terminated rest \<Longrightarrow> takeWhile isDigit rest = [] \<and> dropWhile isDigit rest = rest"
  by (cases rest) (auto simp: terminated_def isDigit_def less_eq_char_def)

lemma takeWhile_append_all:
  "dropWhile P xs = [] \<Longrightarrow> takeWhile P (xs @ ys) = xs @ takeWhile P ys \<and> dropWhile P (xs @ ys) = dropWhile P ys"
  by (induction xs) (auto split: if_splits)

lemma takeWhile_append_stop:
  "dropWhile P xs \<noteq> [] \<Longrightarrow> takeWhile P (xs @ ys) = takeWhile P xs \<and> dropWhile P (xs @ ys) = dropWhile P xs @ ys"
  by (induction xs) (auto split: if_splits)

lemma digits_append:
  assumes "dropWhile isDigit s = [] \<longrightarrow> terminated rest"
  shows "takeWhile isDigit (s @ rest) = takeWhile isDigit s
         \<and> dropWhile isDigit (s @ rest) = dropWhile isDigit s @ rest"
proof (cases "dropWhile isDigit s = []")
  case True
  have tw: "takeWhile isDigit s = s"
    using takeWhile_dropWhile_id [of isDigit s] True by simp
  have r: "takeWhile isDigit rest = []" "dropWhile isDigit rest = rest"
    using True assms terminated_not_digit [of rest] by simp_all
  have "takeWhile isDigit (s @ rest) = s @ takeWhile isDigit rest"
    "dropWhile isDigit (s @ rest) = dropWhile isDigit rest"
    using takeWhile_append_all [OF True, of rest] by simp_all
  then show ?thesis by (simp only: tw r True) simp
next
  case False
  then show ?thesis using takeWhile_append_stop [of isDigit s rest] by simp
qed

lemma scanExp_append:
  assumes "scanExp lit s = Some (l, r)" and "r = [] \<longrightarrow> terminated rest"
  shows "scanExp lit (s @ rest) = Some (l, r @ rest)"
proof (cases s)
  case Nil
  then have "l = lit" "r = []" using assms(1) by (simp_all add: scanExp_def)
  then show ?thesis using Nil assms(2)
    by (cases rest) (auto simp: scanExp_def terminated_def)
next
  case (Cons c cs)
  show ?thesis
  proof (cases "c = CHR ''e'' \<or> c = CHR ''E''")
    case False
    then show ?thesis using assms(1) Cons by (auto simp: scanExp_def)
  next
    case True
    define sgn where "sgn = (case cs of [] \<Rightarrow> ([], cs)
       | d # ds \<Rightarrow> if d = CHR ''+'' \<or> d = CHR ''-'' then ([d], ds) else ([], cs))"
    obtain sign s1 where sg: "sgn = (sign, s1)" by (cases sgn)
    have res: "takeWhile isDigit s1 \<noteq> []" "l = lit @ c # sign @ takeWhile isDigit s1"
      "r = dropWhile isDigit s1"
      using assms(1) Cons True sg unfolding sgn_def
      by (auto simp: scanExp_def Let_def split: if_splits)
    have s1ne: "s1 \<noteq> []" using res(1) by auto
    have cs: "cs \<noteq> []" using sg s1ne unfolding sgn_def by (cases cs) auto
    have sgn': "(case cs @ rest of [] \<Rightarrow> ([], cs @ rest)
       | d # ds \<Rightarrow> if d = CHR ''+'' \<or> d = CHR ''-'' then ([d], ds) else ([], cs @ rest))
       = (sign, s1 @ rest)"
      using sg cs unfolding sgn_def by (cases cs) (auto split: if_splits)
    have d: "takeWhile isDigit (s1 @ rest) = takeWhile isDigit s1"
      "dropWhile isDigit (s1 @ rest) = dropWhile isDigit s1 @ rest"
      using digits_append [of s1 rest] assms(2) res(3) by simp_all
    show ?thesis
      using Cons True res sgn' d by (simp add: scanExp_def)
  qed
qed

lemma scanFrac_append:
  assumes "scanFrac lit s = Some (l, r)" and "r = [] \<longrightarrow> terminated rest"
  shows "scanFrac lit (s @ rest) = Some (l, r @ rest)"
proof (cases s)
  case Nil
  then have e: "scanExp lit [] = Some (l, r)" using assms(1) by (simp add: scanFrac_def)
  then have lr: "l = lit" "r = []" by (simp_all add: scanExp_def)
  have "scanExp lit ([] @ rest) = Some (l, r @ rest)"
    using scanExp_append [OF e assms(2)] .
  then show ?thesis using Nil lr assms(2)
    by (cases rest) (auto simp: scanFrac_def terminated_def)
next
  case (Cons c cs)
  show ?thesis
  proof (cases "c = CHR ''.''")
    case False
    then have "scanExp lit s = Some (l, r)" using assms(1) Cons by (simp add: scanFrac_def)
    then have "scanExp lit (s @ rest) = Some (l, r @ rest)"
      using scanExp_append assms(2) by blast
    then show ?thesis using Cons False by (simp add: scanFrac_def)
  next
    case True
    have res: "takeWhile isDigit cs \<noteq> []"
      "scanExp (lit @ c # takeWhile isDigit cs) (dropWhile isDigit cs) = Some (l, r)"
      using assms(1) Cons True by (auto simp: scanFrac_def split: if_splits)
    have tm: "dropWhile isDigit cs = [] \<longrightarrow> terminated rest"
    proof
      assume d0: "dropWhile isDigit cs = []"
      have "r = []" using res(2) unfolding d0 by (simp add: scanExp_def)
      then show "terminated rest" using assms(2) by simp
    qed
    have d: "takeWhile isDigit (cs @ rest) = takeWhile isDigit cs"
      "dropWhile isDigit (cs @ rest) = dropWhile isDigit cs @ rest"
      using digits_append [OF tm] by simp_all
    have "scanExp (lit @ c # takeWhile isDigit cs) (dropWhile isDigit cs @ rest) = Some (l, r @ rest)"
      using scanExp_append [OF res(2) assms(2)] .
    then show ?thesis using Cons True res(1) d by (simp add: scanFrac_def)
  qed
qed

lemma scanFrac_Nil_rest: "scanFrac lit s = Some (l, r) \<Longrightarrow> s = [] \<Longrightarrow> r = []"
  by (simp add: scanFrac_def scanExp_def)

lemma scanNumber_append:
  assumes "scanNumber s = Some (l, r)" and "r = [] \<longrightarrow> terminated rest"
  shows "scanNumber (s @ rest) = Some (l, r @ rest)"
proof -
  define sgn where "sgn = (case s of [] \<Rightarrow> ([], s)
     | c # cs \<Rightarrow> if c = CHR ''-'' then ([c], cs) else ([], s))"
  obtain sign s1 where sg: "sgn = (sign, s1)" by (cases sgn)
  have s1ne: "s1 \<noteq> []"
    using assms(1) sg unfolding sgn_def by (cases s1) (auto simp: scanNumber_def Let_def split: list.splits if_splits)
  then obtain c cs where s1: "s1 = c # cs" by (cases s1) auto
  have sne: "s \<noteq> []" using sg s1ne unfolding sgn_def by (cases s) auto
  have sgn': "(case s @ rest of [] \<Rightarrow> ([], s @ rest)
     | c # cs \<Rightarrow> if c = CHR ''-'' then ([c], cs) else ([], s @ rest)) = (sign, s1 @ rest)"
    using sg sne unfolding sgn_def by (cases s) (auto split: if_splits)
  have body: "(if c = CHR ''0'' then scanFrac (sign @ [c]) cs
       else if CHR ''1'' \<le> c \<and> c \<le> CHR ''9''
       then scanFrac (sign @ c # takeWhile isDigit cs) (dropWhile isDigit cs)
       else None) = Some (l, r)"
    using assms(1) sg s1 unfolding sgn_def by (auto simp: scanNumber_def Let_def split: list.splits if_splits)
  show ?thesis
  proof (cases "c = CHR ''0''")
    case True
    then have "scanFrac (sign @ [c]) cs = Some (l, r)" using body by simp
    then have "scanFrac (sign @ [c]) (cs @ rest) = Some (l, r @ rest)"
      using scanFrac_append assms(2) by blast
    then show ?thesis using True sgn' s1 by (simp add: scanNumber_def)
  next
    case False
    then have d19: "CHR ''1'' \<le> c \<and> c \<le> CHR ''9''"
      and f: "scanFrac (sign @ c # takeWhile isDigit cs) (dropWhile isDigit cs) = Some (l, r)"
      using body by (auto split: if_splits)
    have tm: "dropWhile isDigit cs = [] \<longrightarrow> terminated rest"
      using scanFrac_Nil_rest [OF f] assms(2) by blast
    have d: "takeWhile isDigit (cs @ rest) = takeWhile isDigit cs"
      "dropWhile isDigit (cs @ rest) = dropWhile isDigit cs @ rest"
      using digits_append [OF tm] by simp_all
    have "scanFrac (sign @ c # takeWhile isDigit cs) (dropWhile isDigit cs @ rest) = Some (l, r @ rest)"
      using scanFrac_append [OF f assms(2)] .
    then show ?thesis using False d19 sgn' s1 d by (simp add: scanNumber_def)
  qed
qed

lemma valid_number_scan:
  "valid_number lit \<Longrightarrow> terminated rest \<Longrightarrow> scanNumber (lit @ rest) = Some (lit, rest)"
  using scanNumber_append [of lit lit "[]" rest] by (simp add: valid_number_def)

lemma valid_number_first:
  assumes "valid_number lit"
  shows "\<exists>c cs. lit = c # cs \<and> (c = CHR ''-'' \<or> isDigit c)"
proof (cases lit)
  case Nil
  then show ?thesis using assms by (simp add: valid_number_def scanNumber_def)
next
  case (Cons c cs)
  show ?thesis
  proof (cases "c = CHR ''-''")
    case True
    then show ?thesis using Cons by simp
  next
    case False
    then have "c = CHR ''0'' \<or> (CHR ''1'' \<le> c \<and> c \<le> CHR ''9'')"
      using assms Cons by (auto simp: valid_number_def scanNumber_def split: if_splits)
    then have "isDigit c" by (auto simp: isDigit_def less_eq_char_def)
    then show ?thesis using Cons by simp
  qed
qed

lemma value_start_plain:
  "value_start c \<Longrightarrow> \<not> isSpace c \<and> c \<noteq> CHR '']'' \<and> c \<noteq> CHR ''}'' \<and> c \<noteq> CHR '',''"
  by (auto simp: value_start_def isSpace_def dquote_def isDigit_def less_eq_char_def)

lemma skipSpace_start: "\<not> isSpace c \<Longrightarrow> skipSpace (c # cs) = c # cs"
  by (simp add: skipSpace_def)

lemma skipSpace_punct:
  "skipSpace (CHR '']'' # cs) = CHR '']'' # cs" "skipSpace (CHR ''}'' # cs) = CHR ''}'' # cs"
  "skipSpace (CHR '','' # cs) = CHR '','' # cs" "skipSpace (CHR '':'' # cs) = CHR '':'' # cs"
  "skipSpace (dquote # cs) = dquote # cs"
  by (simp_all add: skipSpace_def isSpace_def dquote_def)

lemma dquote_neq:
  "dquote \<noteq> CHR ''}''" "dquote \<noteq> CHR '']''" "dquote \<noteq> CHR ''{''" "dquote \<noteq> CHR ''[''"
  "CHR ''{'' \<noteq> dquote" "CHR ''['' \<noteq> dquote"
  by (simp_all add: dquote_def)

lemma json_raw_start:
  assumes "valid_json j"
  shows "\<exists>c cs. json_raw j = c # cs \<and> value_start c"
proof (cases j)
  case (JNumber lit)
  then show ?thesis using assms valid_number_first [of lit] by (auto simp: value_start_def)
qed (auto simp: value_start_def)

lemma raw_elements_start:
  assumes "vs \<noteq> []" and "valid_elements vs"
  shows "\<exists>c cs. raw_elements vs = c # cs \<and> value_start c"
proof -
  obtain v ws where vs: "vs = v # ws" using assms(1) by (cases vs) auto
  then have "valid_json v" using assms(2) by simp
  then obtain c cs where "json_raw v = c # cs" "value_start c" using json_raw_start by blast
  then show ?thesis using vs by (cases ws) auto
qed

lemma raw_members_start:
  assumes "ms \<noteq> []"
  shows "\<exists>cs. raw_members ms = dquote # cs"
proof -
  obtain k v ws where "ms = (k, v) # ws" using assms by (cases ms) auto
  then show ?thesis by (cases ws) auto
qed

lemma parseValue_literal:
  "parseValue (''null'' @ rest) = Some (JNull, rest)"
  "parseValue (''true'' @ rest) = Some (JBool True, rest)"
  "parseValue (''false'' @ rest) = Some (JBool False, rest)"
  by (simp_all add: parseValue.simps scanLiteral_def dquote_def)

lemma parseValue_number:
  assumes "valid_number lit" and "terminated rest"
  shows "parseValue (lit @ rest) = Some (JNumber lit, rest)"
proof -
  obtain c cs where l: "lit = c # cs" "c = CHR ''-'' \<or> isDigit c"
    using valid_number_first [OF assms(1)] by blast
  then have c: "c \<noteq> CHR ''{''" "c \<noteq> CHR ''[''" "c \<noteq> dquote" "c \<noteq> CHR ''t''" "c \<noteq> CHR ''f''"
    "c \<noteq> CHR ''n''"
    by (auto simp: isDigit_def less_eq_char_def dquote_def)
  have "scanNumber (lit @ rest) = Some (lit, rest)"
    using valid_number_scan [OF assms] .
  then show ?thesis
    using l(1) c by (subst parseValue.simps) simp
qed

lemma parseValue_string:
  assumes "valid_string body"
  shows "parseValue (dquote # body @ dquote # rest) = Some (JString body, rest)"
  using valid_string_scan [OF assms, of rest]
  by (subst parseValue.simps) (simp add: dquote_def)

lemma parseValue_array_empty: "parseValue (CHR ''['' # CHR '']'' # rest) = Some (JArray [], rest)"
  by (subst parseValue.simps) (simp add: skipSpace_punct dquote_def)

lemma parseValue_object_empty: "parseValue (CHR ''{'' # CHR ''}'' # rest) = Some (JObject [], rest)"
  by (subst parseValue.simps) (simp add: skipSpace_punct dquote_def)

lemma parseValue_array:
  assumes "parseElements (c # cs) = Some (vs, rest)" and "value_start c"
  shows "parseValue (CHR ''['' # c # cs) = Some (JArray vs, rest)"
  using assms value_start_plain [OF assms(2)]
  by (subst parseValue.simps) (simp add: skipSpace_start dquote_def)

lemma parseValue_object:
  assumes "parseMembers (dquote # cs) = Some (ms, rest)"
  shows "parseValue (CHR ''{'' # dquote # cs) = Some (JObject ms, rest)"
  using assms
  by (subst parseValue.simps) (simp add: skipSpace_punct dquote_neq)

lemma parseElements_last:
  assumes "parseValue (s @ CHR '']'' # rest) = Some (v, CHR '']'' # rest)" and "s \<noteq> []"
  shows "parseElements (s @ CHR '']'' # rest) = Some ([v], rest)"
  using assms by (subst parseElements.simps) (simp add: skipSpace_punct)

lemma parseElements_more:
  assumes "parseValue (s @ CHR '','' # c # cs) = Some (v, CHR '','' # c # cs)" and "s \<noteq> []"
    and "value_start c" and "parseElements (c # cs) = Some (vs, rest)"
  shows "parseElements (s @ CHR '','' # c # cs) = Some (v # vs, rest)"
  using assms value_start_plain [OF assms(3)]
  by (subst parseElements.simps) (simp add: skipSpace_punct skipSpace_start)

lemma parseMembers_last:
  assumes "valid_string k" and "parseValue (c # s @ CHR ''}'' # rest) = Some (v, CHR ''}'' # rest)"
    and "value_start c"
  shows "parseMembers (dquote # k @ dquote # CHR '':'' # c # s @ CHR ''}'' # rest) = Some ([(k, v)], rest)"
  using assms(2) valid_string_scan [OF assms(1), of "CHR '':'' # c # s @ CHR ''}'' # rest"]
    value_start_plain [OF assms(3)]
  by (subst parseMembers.simps) (simp add: skipSpace_punct skipSpace_start)

lemma parseMembers_more:
  assumes "valid_string k"
    and "parseValue (c # s @ CHR '','' # dquote # cs) = Some (v, CHR '','' # dquote # cs)"
    and "value_start c" and "parseMembers (dquote # cs) = Some (ms, rest)"
  shows "parseMembers (dquote # k @ dquote # CHR '':'' # c # s @ CHR '','' # dquote # cs)
         = Some ((k, v) # ms, rest)"
  using assms(2,4) valid_string_scan [OF assms(1), of "CHR '':'' # c # s @ CHR '','' # dquote # cs"]
    value_start_plain [OF assms(3)]
  by (subst parseMembers.simps) (simp add: skipSpace_punct skipSpace_start)

lemma terminated_punct:
  "terminated (CHR '']'' # cs)" "terminated (CHR ''}'' # cs)" "terminated (CHR '','' # cs)" "terminated []"
  by (simp_all add: terminated_def)

lemma parse_raw:
  "valid_json j \<Longrightarrow> terminated rest \<Longrightarrow> parseValue (json_raw j @ rest) = Some (j, rest)"
  "vs \<noteq> [] \<Longrightarrow> valid_elements vs \<Longrightarrow>
     parseElements (raw_elements vs @ CHR '']'' # rest1) = Some (vs, rest1)"
  "ms \<noteq> [] \<Longrightarrow> valid_members ms \<Longrightarrow>
     parseMembers (raw_members ms @ CHR ''}'' # rest2) = Some (ms, rest2)"
proof (induction j and vs and ms arbitrary: rest and rest1 and rest2
    rule: json_raw_raw_elements_raw_members.induct)
  case 1
  then show ?case using parseValue_literal(1) by simp
next
  case (2 b)
  then show ?case using parseValue_literal(2,3) by (cases b) simp_all
next
  case (3 lit)
  then show ?case using parseValue_number by simp
next
  case (4 body)
  then show ?case using parseValue_string [of body rest] by simp
next
  case (5 vs)
  show ?case
  proof (cases "vs = []")
    case True
    then show ?thesis using parseValue_array_empty by simp
  next
    case False
    have v: "valid_elements vs" using "5.prems" by simp
    obtain c cs where s: "raw_elements vs = c # cs" "value_start c"
      using raw_elements_start [OF False v] by blast
    have "parseElements (c # cs @ CHR '']'' # rest) = Some (vs, rest)"
      using "5.IH" [OF False v, of rest] s(1) by simp
    then have "parseValue (CHR ''['' # c # cs @ CHR '']'' # rest) = Some (JArray vs, rest)"
      using parseValue_array s(2) by blast
    then show ?thesis using s(1) by simp
  qed
next
  case (6 ms)
  show ?case
  proof (cases "ms = []")
    case True
    then show ?thesis using parseValue_object_empty by simp
  next
    case False
    have v: "valid_members ms" using "6.prems" by simp
    obtain cs where s: "raw_members ms = dquote # cs"
      using raw_members_start [OF False] by blast
    have "parseMembers (dquote # cs @ CHR ''}'' # rest) = Some (ms, rest)"
      using "6.IH" [OF False v, of rest] s by simp
    then have "parseValue (CHR ''{'' # dquote # cs @ CHR ''}'' # rest) = Some (JObject ms, rest)"
      using parseValue_object by blast
    then show ?thesis using s by simp
  qed
next
  case 7
  then show ?case by simp
next
  case (8 v)
  then have v: "valid_json v" by simp
  have ne: "json_raw v \<noteq> []" using json_raw_start [OF v] by auto
  have "parseValue (json_raw v @ CHR '']'' # rest1) = Some (v, CHR '']'' # rest1)"
    using "8.IH" [OF v terminated_punct(1)] .
  then show ?case using parseElements_last ne by simp
next
  case (9 v w vs)
  then have v: "valid_json v" and ws: "valid_elements (w # vs)" by simp_all
  have ne: "json_raw v \<noteq> []" using json_raw_start [OF v] by auto
  obtain c cs where s: "raw_elements (w # vs) = c # cs" "value_start c"
    using raw_elements_start [OF _ ws] by blast
  have e: "parseElements (c # cs @ CHR '']'' # rest1) = Some (w # vs, rest1)"
    using "9.IH"(2) [OF _ ws, of rest1] s(1) by simp
  have "parseValue (json_raw v @ CHR '','' # c # cs @ CHR '']'' # rest1)
        = Some (v, CHR '','' # c # cs @ CHR '']'' # rest1)"
    using "9.IH"(1) [OF v terminated_punct(3)] .
  then have "parseElements (json_raw v @ CHR '','' # c # cs @ CHR '']'' # rest1)
        = Some (v # w # vs, rest1)"
    using parseElements_more [OF _ ne s(2) e] by simp
  then show ?case using s(1) by simp
next
  case 10
  then show ?case by simp
next
  case (11 k v)
  then have k: "valid_string k" and v: "valid_json v" by simp_all
  obtain c s where s: "json_raw v = c # s" "value_start c"
    using json_raw_start [OF v] by blast
  have "parseValue (json_raw v @ CHR ''}'' # rest2) = Some (v, CHR ''}'' # rest2)"
    using "11.IH" [OF v terminated_punct(2)] .
  then have "parseValue (c # s @ CHR ''}'' # rest2) = Some (v, CHR ''}'' # rest2)"
    using s(1) by simp
  then show ?case using parseMembers_last [OF k _ s(2)] s(1) by simp
next
  case (12 k v m ms)
  then have k: "valid_string k" and v: "valid_json v" and rest: "valid_members (m # ms)"
    by simp_all
  obtain c s where s: "json_raw v = c # s" "value_start c"
    using json_raw_start [OF v] by blast
  obtain cs where t: "raw_members (m # ms) = dquote # cs"
    using raw_members_start [of "m # ms"] by blast
  have e: "parseMembers (dquote # cs @ CHR ''}'' # rest2) = Some (m # ms, rest2)"
    using "12.IH"(2) [OF _ rest, of rest2] t by simp
  have "parseValue (json_raw v @ CHR '','' # dquote # cs @ CHR ''}'' # rest2)
        = Some (v, CHR '','' # dquote # cs @ CHR ''}'' # rest2)"
    using "12.IH"(1) [OF v terminated_punct(3)] .
  then have "parseValue (c # s @ CHR '','' # dquote # cs @ CHR ''}'' # rest2)
        = Some (v, CHR '','' # dquote # cs @ CHR ''}'' # rest2)"
    using s(1) by simp
  then show ?case using parseMembers_more [OF k _ s(2) e] s(1) t by simp
qed

lemma json_parse_raw: "valid_json j \<Longrightarrow> json_parse (json_raw j) = Some j"
proof -
  assume v: "valid_json j"
  obtain c cs where s: "json_raw j = c # cs" "value_start c"
    using json_raw_start [OF v] by blast
  have "skipSpace (json_raw j) = json_raw j"
    using s value_start_plain skipSpace_start by simp
  moreover have "parseValue (json_raw j) = Some (j, [])"
    using parse_raw(1) [OF v terminated_punct(4)] by simp
  ultimately show ?thesis by (simp add: json_parse_def skipSpace_def)
qed

end
